theory Spec2Isabelle
  imports Main "HOL-Library.Word"
begin

section \<open>The JNI bridge of AudioVolumeChangeHandler\<close>

text \<open>
  A shallow embedding of
  \<^verbatim>\<open>services/core/jni/com_android_server_audio_AudioVolumeChangeHandler.cpp\<close>.
  The C++ code mutates four stores: the native heap holding the
  \<^verbatim>\<open>JNIAudioVolumeChangeHandler\<close> objects with their strong reference counts, the
  \<^verbatim>\<open>mJniCallback\<close> long field of each Java owner, the table of JNI global references,
  and the callback registry of the audio system. They are the fields of one record that
  every operation takes and returns. Each operation also appends the calls it makes to a
  trace, so that the order and the number of calls can be stated.
\<close>

subsection \<open>Values\<close>

text \<open>Native pointers and JNI references; \<open>0\<close> is \<^verbatim>\<open>NULL\<close>.\<close>

type_synonym addr = nat
type_synonym jobject = nat

text \<open>\<^verbatim>\<open>jint\<close>, \<^verbatim>\<open>int\<close> and \<^verbatim>\<open>volume_group_t\<close> are 32 bits wide.\<close>

type_synonym jint = "32 word"

text \<open>\<^verbatim>\<open>status_t\<close> with its success value.\<close>

type_synonym status_t = int

definition NO_ERROR :: status_t where
  "NO_ERROR = 0"

text \<open>Method and field identifiers are resolved from a name and a JNI signature.\<close>

datatype jmethodID = MethodID string string

datatype jfieldID = FieldID string string

text \<open>
  Modelled from the spec: the event kind. The macro
  \<^verbatim>\<open>AUDIOVOLUMEGROUP_EVENT_VOLUME_CHANGED\<close> is defined in the header
  \<^verbatim>\<open>com_android_server_audio_AudioVolumeChangeHandler.h\<close>, which is not among the
  sources. The spec has one event kind, a fixed tag; the code only passes the value on,
  so it is kept symbolic.
\<close>

datatype event_kind = AUDIOVOLUMEGROUP_EVENT_VOLUME_CHANGED

text \<open>The arguments of a variadic JNI call.\<close>

datatype jvalue = JObject jobject | JInt jint | JEventKind event_kind

text \<open>
  Who holds a strong reference: the slot (\<^verbatim>\<open>incStrong((void*)setJniCallback)\<close>), a
  local \<^verbatim>\<open>sp<>\<close>, or the registry of the audio system.
\<close>

datatype ref_id = SlotRef | SpRef | RegistryRef

datatype log_level = LogD | LogW | LogE

datatype event =
    ELock
  | EUnlock
  | EGetLongField jobject jfieldID addr
  | ESetLongField jobject jfieldID addr
  | EIncStrong addr ref_id
  | EDecStrong addr ref_id
  | EDelete addr
  | ENewGlobalRef jobject jobject
  | EDeleteGlobalRef jobject
  | EAddCallback addr status_t
  | ERemoveCallback addr
  | ECallStaticVoidMethod jobject jmethodID "jvalue list"
  | EExceptionClear
  | ELog log_level string

text \<open>
  What C++ leaves undefined is a value of the model: following a pointer to a freed
  object, reading a member the constructor never assigned, and dropping a reference
  that is not held.
\<close>

datatype fault = DanglingPointer | UninitialisedRead | RefCountUnderflow

subsection \<open>State\<close>

text \<open>
  \<^verbatim>\<open>class JNIAudioVolumeChangeHandler\<close>: the two members the code reads and writes
  and the strong count the class inherits from \<^verbatim>\<open>RefBase\<close>. A member is \<open>None\<close>
  until the constructor assigns it.
\<close>

record handler =
  mClass :: "jobject option"
  mObject :: "jobject option"
  mStrong :: nat

record world =
  heap :: "addr \<rightharpoonup> handler"
  next_addr :: addr
  long_fields :: "jobject \<Rightarrow> addr"
  globals :: "jobject \<rightharpoonup> jobject"
  next_gref :: jobject
  registry :: "addr list"
  pending :: bool
  trace :: "event list"

definition init_world :: world where
  "init_world = \<lparr> heap = Map.empty, next_addr = 1, long_fields = (\<lambda>_. 0),
     globals = Map.empty, next_gref = 1, registry = [], pending = False, trace = [] \<rparr>"

definition log :: "event \<Rightarrow> world \<Rightarrow> world" where
  "log e w = w\<lparr>trace := trace w @ [e]\<rparr>"

subsection \<open>Process-wide identifiers\<close>

text \<open>
  \<^verbatim>\<open>register_android_server_audio_AudioVolumeChangeHandler\<close> resolves the two
  identifiers once, or dies.
\<close>

definition kAudioVolumeChangeHandlerClassPathName :: string where
  "kAudioVolumeChangeHandlerClassPathName = ''com/android/server/audio/AudioVolumeChangeHandler''"

definition postEventFromNative :: jmethodID where
  "postEventFromNative = MethodID ''postEventFromNative'' ''(Ljava/lang/Object;IIILjava/lang/Object;)V''"

definition mJniCallback :: jfieldID where
  "mJniCallback = FieldID ''mJniCallback'' ''J''"

subsection \<open>JNI primitives\<close>

text \<open>
  \<^verbatim>\<open>NewGlobalRef\<close> of \<^verbatim>\<open>NULL\<close> is \<^verbatim>\<open>NULL\<close>; otherwise a new entry of the table of
  global references, which records the object it refers to. The trace records the call
  with its result.
\<close>

definition NewGlobalRef :: "world \<Rightarrow> jobject \<Rightarrow> jobject \<times> world" where
  "NewGlobalRef w obj =
     (if obj = 0 then (0, log (ENewGlobalRef obj 0) w)
      else let g = next_gref w in
        (g, log (ENewGlobalRef obj g) (w\<lparr>globals := (globals w)(g \<mapsto> obj), next_gref := g + 1\<rparr>)))"

text \<open>\<^verbatim>\<open>DeleteGlobalRef\<close> of \<^verbatim>\<open>NULL\<close> changes nothing.\<close>

definition DeleteGlobalRef :: "world \<Rightarrow> jobject \<Rightarrow> world" where
  "DeleteGlobalRef w g =
     (if g = 0 then log (EDeleteGlobalRef g) w
      else log (EDeleteGlobalRef g) (w\<lparr>globals := (globals w)(g := None)\<rparr>))"

text \<open>The long field holds the pointer, cast to \<^verbatim>\<open>jlong\<close> and back.\<close>

definition GetLongField :: "world \<Rightarrow> jobject \<Rightarrow> jfieldID \<Rightarrow> addr \<times> world" where
  "GetLongField w thiz fid = (long_fields w thiz, log (EGetLongField thiz fid (long_fields w thiz)) w)"

definition SetLongField :: "world \<Rightarrow> jobject \<Rightarrow> jfieldID \<Rightarrow> addr \<Rightarrow> world" where
  "SetLongField w thiz fid v = log (ESetLongField thiz fid v) (w\<lparr>long_fields := (long_fields w)(thiz := v)\<rparr>)"

text \<open>
  The Java method runs on the other side; whether it throws is its own decision, the
  argument \<open>throws\<close>. An exception stays pending until it is cleared.
\<close>

definition CallStaticVoidMethod :: "world \<Rightarrow> bool \<Rightarrow> jobject \<Rightarrow> jmethodID \<Rightarrow> jvalue list \<Rightarrow> world" where
  "CallStaticVoidMethod w throws cls mid args =
     log (ECallStaticVoidMethod cls mid args) (w\<lparr>pending := (pending w \<or> throws)\<rparr>)"

definition ExceptionCheck :: "world \<Rightarrow> bool" where
  "ExceptionCheck w = pending w"

definition ExceptionClear :: "world \<Rightarrow> world" where
  "ExceptionClear w = log EExceptionClear (w\<lparr>pending := False\<rparr>)"

subsection \<open>The handler object\<close>

text \<open>
  The constructor. \<open>clazz\<close> is what \<^verbatim>\<open>env->GetObjectClass(thiz)\<close> returns. On
  \<^verbatim>\<open>NULL\<close> the constructor logs and returns with both members unassigned. The object
  is placed at the next free address, with no strong reference yet.
\<close>

definition JNIAudioVolumeChangeHandler_ctor :: "world \<Rightarrow> jobject \<Rightarrow> jobject \<Rightarrow> jobject \<Rightarrow> addr \<times> world" where
  "JNIAudioVolumeChangeHandler_ctor w thiz weak_thiz clazz =
     (let this = next_addr w;
          w0 = w\<lparr>next_addr := this + 1\<rparr>
      in if clazz = 0 then
           (this, log (ELog LogE (''Can't find class '' @ kAudioVolumeChangeHandlerClassPathName))
                    (w0\<lparr>heap := (heap w0)(this \<mapsto> \<lparr>mClass = None, mObject = None, mStrong = 0\<rparr>)\<rparr>))
         else
           let (c, w1) = NewGlobalRef w0 clazz;
               (obj, w2) = NewGlobalRef w1 weak_thiz
           in (this, w2\<lparr>heap := (heap w2)(this \<mapsto> \<lparr>mClass = Some c, mObject = Some obj, mStrong = 0\<rparr>)\<rparr>))"

text \<open>
  The destructor. \<open>attached\<close> says whether \<^verbatim>\<open>AndroidRuntime::getJNIEnv()\<close> finds an
  environment for the calling thread. Without one it returns at once; with one it
  deletes \<^verbatim>\<open>mObject\<close>, then \<^verbatim>\<open>mClass\<close>.
\<close>

definition JNIAudioVolumeChangeHandler_dtor :: "bool \<Rightarrow> addr \<Rightarrow> world \<Rightarrow> fault + world" where
  "JNIAudioVolumeChangeHandler_dtor attached this w =
     (if \<not> attached then Inr w
      else case heap w this of
        None \<Rightarrow> Inl DanglingPointer
      | Some h \<Rightarrow>
          (case mObject h of
             None \<Rightarrow> Inl UninitialisedRead
           | Some obj \<Rightarrow>
               (case mClass h of
                  None \<Rightarrow> Inl UninitialisedRead
                | Some cls \<Rightarrow> Inr (DeleteGlobalRef (DeleteGlobalRef w obj) cls))))"

text \<open>
  \<^verbatim>\<open>onAudioVolumeGroupChanged\<close>. Without an environment the event is dropped. With
  one, the static method is called with five arguments, and an exception it left
  pending is logged and cleared.
\<close>

definition onAudioVolumeGroupChanged :: "bool \<Rightarrow> bool \<Rightarrow> addr \<Rightarrow> jint \<Rightarrow> jint \<Rightarrow> world \<Rightarrow> fault + world" where
  "onAudioVolumeGroupChanged attached throws this grp flags w =
     (if \<not> attached then Inr w
      else case heap w this of
        None \<Rightarrow> Inl DanglingPointer
      | Some h \<Rightarrow>
          (case mClass h of
             None \<Rightarrow> Inl UninitialisedRead
           | Some cls \<Rightarrow>
               (case mObject h of
                  None \<Rightarrow> Inl UninitialisedRead
                | Some obj \<Rightarrow>
                    let w1 = CallStaticVoidMethod w throws cls postEventFromNative
                               [JObject obj, JEventKind AUDIOVOLUMEGROUP_EVENT_VOLUME_CHANGED,
                                JInt grp, JInt flags, JObject 0]
                    in if ExceptionCheck w1
                       then Inr (ExceptionClear
                                  (log (ELog LogW ''An exception occurred while notifying an event.'') w1))
                       else Inr w1)))"

subsection \<open>Strong reference counts\<close>

text \<open>
  \<^verbatim>\<open>RefBase::incStrong\<close> and \<^verbatim>\<open>RefBase::decStrong\<close>. Dropping the last strong
  reference runs the destructor on the calling thread and frees the object.
\<close>

definition incStrong :: "addr \<Rightarrow> ref_id \<Rightarrow> world \<Rightarrow> fault + world" where
  "incStrong a rid w =
     (case heap w a of
        None \<Rightarrow> Inl DanglingPointer
      | Some h \<Rightarrow> Inr (log (EIncStrong a rid) (w\<lparr>heap := (heap w)(a \<mapsto> h\<lparr>mStrong := mStrong h + 1\<rparr>)\<rparr>)))"

definition decStrong :: "bool \<Rightarrow> addr \<Rightarrow> ref_id \<Rightarrow> world \<Rightarrow> fault + world" where
  "decStrong attached a rid w =
     (case heap w a of
        None \<Rightarrow> Inl DanglingPointer
      | Some h \<Rightarrow>
          if mStrong h = 0 then Inl RefCountUnderflow
          else if mStrong h = 1 then
            (case JNIAudioVolumeChangeHandler_dtor attached a (log (EDecStrong a rid) w) of
               Inl e \<Rightarrow> Inl e
             | Inr w1 \<Rightarrow> Inr (log (EDelete a) (w1\<lparr>heap := (heap w1)(a := None)\<rparr>)))
          else Inr (log (EDecStrong a rid) (w\<lparr>heap := (heap w)(a \<mapsto> h\<lparr>mStrong := mStrong h - 1\<rparr>)\<rparr>)))"

text \<open>An \<^verbatim>\<open>sp<>\<close> made from a raw pointer takes a reference unless the pointer is null,
  and gives it back when it goes out of scope.\<close>

definition sp_acquire :: "addr \<Rightarrow> world \<Rightarrow> fault + world" where
  "sp_acquire a w = (if a = 0 then Inr w else incStrong a SpRef w)"

definition sp_release :: "bool \<Rightarrow> addr \<Rightarrow> world \<Rightarrow> fault + world" where
  "sp_release attached a w = (if a = 0 then Inr w else decStrong attached a SpRef w)"

subsection \<open>The audio system\<close>

text \<open>
  Modelled from the spec: \<^verbatim>\<open>AudioSystem::addAudioVolumeGroupCallback\<close> and
  \<^verbatim>\<open>AudioSystem::removeAudioVolumeGroupCallback\<close> belong to the audio client library,
  outside this file. The spec gives the contract: the event source either accepts a
  callback or rejects it with an error; it shares an accepted callback (its registry
  holds a strong reference to it) until the callback is removed. Whether a registration
  is accepted is the event source's decision, the argument \<open>status\<close>.
\<close>

definition addAudioVolumeGroupCallback :: "world \<Rightarrow> addr \<Rightarrow> status_t \<Rightarrow> fault + (status_t \<times> world)" where
  "addAudioVolumeGroupCallback w callback status =
     (let w1 = log (EAddCallback callback status) w
      in if status = NO_ERROR then
           (case incStrong callback RegistryRef (w1\<lparr>registry := registry w1 @ [callback]\<rparr>) of
              Inl e \<Rightarrow> Inl e
            | Inr w2 \<Rightarrow> Inr (status, w2))
         else Inr (status, w1))"

definition removeAudioVolumeGroupCallback :: "bool \<Rightarrow> world \<Rightarrow> addr \<Rightarrow> fault + world" where
  "removeAudioVolumeGroupCallback attached w callback =
     (let w1 = log (ERemoveCallback callback) w
      in if callback \<in> set (registry w1)
         then decStrong attached callback RegistryRef (w1\<lparr>registry := remove1 callback (registry w1)\<rparr>)
         else Inr w1)"

subsection \<open>The slot and the two native methods\<close>

text \<open>
  \<^verbatim>\<open>setJniCallback\<close>, under \<^verbatim>\<open>gLock\<close>: read the field into the strong pointer
  \<^verbatim>\<open>old\<close>, take the slot's reference to \<^verbatim>\<open>callback\<close>, drop the slot's reference to
  \<^verbatim>\<open>old\<close>, write the field, return \<^verbatim>\<open>old\<close>. The reference that \<^verbatim>\<open>old\<close> holds
  goes to the caller with the returned pointer. The function runs on the thread of a
  native method, which has an environment.
\<close>

definition setJniCallback :: "world \<Rightarrow> jobject \<Rightarrow> addr \<Rightarrow> fault + (addr \<times> world)" where
  "setJniCallback w thiz callback =
     (let w1 = log ELock w;
          (old, w2) = GetLongField w1 thiz mJniCallback
      in case sp_acquire old w2 of
           Inl e \<Rightarrow> Inl e
         | Inr w3 \<Rightarrow>
             (case (if callback \<noteq> 0 then incStrong callback SlotRef w3 else Inr w3) of
                Inl e \<Rightarrow> Inl e
              | Inr w4 \<Rightarrow>
                  (case (if old \<noteq> 0 then decStrong True old SlotRef w4 else Inr w4) of
                     Inl e \<Rightarrow> Inl e
                   | Inr w5 \<Rightarrow> Inr (old, log EUnlock (SetLongField w5 thiz mJniCallback callback)))))"

text \<open>
  \<^verbatim>\<open>native_setup\<close>. \<open>clazz\<close> is the result of \<^verbatim>\<open>GetObjectClass\<close> in the constructor
  and \<open>status\<close> the answer of the audio system. The pointer that \<^verbatim>\<open>setJniCallback\<close>
  returns is a temporary, released at the end of the statement; \<^verbatim>\<open>callback\<close> is
  released at the end of the function. The Java runtime calls a native method on a
  thread that has an environment, so a destructor run from here finds one.
\<close>

definition eventHandlerSetup :: "world \<Rightarrow> jobject \<Rightarrow> jobject \<Rightarrow> jobject \<Rightarrow> status_t \<Rightarrow> fault + world" where
  "eventHandlerSetup w thiz weak_this clazz status =
     (let w0 = log (ELog LogD ''com_android_server_audio_AudioVolumeChangeHandler_eventHandlerSetup'') w;
          (callback, w1) = JNIAudioVolumeChangeHandler_ctor w0 thiz weak_this clazz
      in case sp_acquire callback w1 of
           Inl e \<Rightarrow> Inl e
         | Inr w2 \<Rightarrow>
             (case addAudioVolumeGroupCallback w2 callback status of
                Inl e \<Rightarrow> Inl e
              | Inr (st, w3) \<Rightarrow>
                  (case (if st = NO_ERROR then
                           (case setJniCallback w3 thiz callback of
                              Inl e \<Rightarrow> Inl e
                            | Inr (old, w4) \<Rightarrow> sp_release True old w4)
                         else Inr w3) of
                     Inl e \<Rightarrow> Inl e
                   | Inr w5 \<Rightarrow> sp_release True callback w5)))"

text \<open>\<^verbatim>\<open>native_finalize\<close>.\<close>

definition eventHandlerFinalize :: "world \<Rightarrow> jobject \<Rightarrow> fault + world" where
  "eventHandlerFinalize w thiz =
     (let w0 = log (ELog LogD ''com_android_server_audio_AudioVolumeChangeHandler_eventHandlerFinalize'') w
      in case setJniCallback w0 thiz 0 of
           Inl e \<Rightarrow> Inl e
         | Inr (callback, w1) \<Rightarrow>
             (case (if callback \<noteq> 0 then removeAudioVolumeGroupCallback True w1 callback else Inr w1) of
                Inl e \<Rightarrow> Inl e
              | Inr w2 \<Rightarrow> sp_release True callback w2))"

subsection \<open>Sequences of calls on one owner\<close>

datatype call = Setup jobject jobject status_t | Teardown

fun run :: "world \<Rightarrow> jobject \<Rightarrow> call list \<Rightarrow> fault + world" where
  "run w thiz [] = Inr w"
| "run w thiz (Setup weak_this clazz status # cs) =
     (case eventHandlerSetup w thiz weak_this clazz status of
        Inl e \<Rightarrow> Inl e
      | Inr w' \<Rightarrow> run w' thiz cs)"
| "run w thiz (Teardown # cs) =
     (case eventHandlerFinalize w thiz of
        Inl e \<Rightarrow> Inl e
      | Inr w' \<Rightarrow> run w' thiz cs)"

section \<open>Observations\<close>

text \<open>A bridge is live while it is on the heap with a strong reference.\<close>

definition live :: "world \<Rightarrow> addr \<Rightarrow> bool" where
  "live w a = (case heap w a of None \<Rightarrow> False | Some h \<Rightarrow> 0 < mStrong h)"

text \<open>
  The references the slot holds to a bridge, read off a trace: each
  \<^verbatim>\<open>incStrong((void*)setJniCallback)\<close> adds one, each \<^verbatim>\<open>decStrong\<close> with that
  identifier takes one away. \<open>slot_count\<close> is the number at the end of the trace,
  \<open>slot_peak\<close> the largest number reached on the way, starting from \<open>c\<close>.
\<close>

definition slot_step :: "addr \<Rightarrow> event \<Rightarrow> int" where
  "slot_step a e = (if e = EIncStrong a SlotRef then 1 else if e = EDecStrong a SlotRef then - 1 else 0)"

fun slot_count :: "addr \<Rightarrow> event list \<Rightarrow> int" where
  "slot_count a [] = 0"
| "slot_count a (e # es) = slot_step a e + slot_count a es"

fun slot_peak :: "addr \<Rightarrow> int \<Rightarrow> event list \<Rightarrow> int" where
  "slot_peak a c [] = c"
| "slot_peak a c (e # es) = max c (slot_peak a (c + slot_step a e) es)"

text \<open>The bridges passed to \<^verbatim>\<open>removeAudioVolumeGroupCallback\<close>, in order.\<close>

fun removeCallback_calls :: "event list \<Rightarrow> addr list" where
  "removeCallback_calls [] = []"
| "removeCallback_calls (ERemoveCallback a # es) = a # removeCallback_calls es"
| "removeCallback_calls (e # es) = removeCallback_calls es"

text \<open>The calls of Java methods, in order.\<close>

fun dispatch_calls :: "event list \<Rightarrow> event list" where
  "dispatch_calls [] = []"
| "dispatch_calls (ECallStaticVoidMethod cls mid args # es) =
     ECallStaticVoidMethod cls mid args # dispatch_calls es"
| "dispatch_calls (e # es) = dispatch_calls es"

text \<open>The global references a trace creates and the ones it deletes, null results left out.\<close>

fun acquired :: "event list \<Rightarrow> jobject list" where
  "acquired [] = []"
| "acquired (ENewGlobalRef obj g # es) = (if g = 0 then acquired es else g # acquired es)"
| "acquired (e # es) = acquired es"

fun released :: "event list \<Rightarrow> jobject list" where
  "released [] = []"
| "released (EDeleteGlobalRef g # es) = (if g = 0 then released es else g # released es)"
| "released (e # es) = released es"

text \<open>\<open>e1\<close> occurs in the trace before the first \<open>e2\<close>.\<close>

definition precedes :: "event \<Rightarrow> event \<Rightarrow> event list \<Rightarrow> bool" where
  "precedes e1 e2 tr = (e1 \<in> set (takeWhile (\<lambda>e. e \<noteq> e2) tr))"

text \<open>
  The five steps of the slot swap as the specification lists them, with the strong
  pointer that carries the old value: lock; read \<open>old\<close>; count \<open>new\<close> if there is one;
  discount \<open>old\<close> if there is one; write \<open>new\<close>; unlock.
\<close>

definition swap_steps :: "jobject \<Rightarrow> addr \<Rightarrow> addr \<Rightarrow> event list" where
  "swap_steps thiz old new =
     [ELock, EGetLongField thiz mJniCallback old]
     @ (if old \<noteq> 0 then [EIncStrong old SpRef] else [])
     @ (if new \<noteq> 0 then [EIncStrong new SlotRef] else [])
     @ (if old \<noteq> 0 then [EDecStrong old SlotRef] else [])
     @ [ESetLongField thiz mJniCallback new, EUnlock]"

text \<open>The debug line each native method writes first.\<close>

definition setup_log :: event where
  "setup_log = ELog LogD ''com_android_server_audio_AudioVolumeChangeHandler_eventHandlerSetup''"

definition finalize_log :: event where
  "finalize_log = ELog LogD ''com_android_server_audio_AudioVolumeChangeHandler_eventHandlerFinalize''"

text \<open>
  The calls of a setup whose registration is accepted, for the old slot value \<open>p\<close>, the
  new bridge \<open>a\<close> and the two global references \<open>g\<close> and \<open>g'\<close> it creates; and the
  calls of a teardown that finds \<open>p\<close> in the slot, with the members \<open>obj\<close> and \<open>cls\<close>
  of the bridge.
\<close>

definition setup_steps :: "jobject \<Rightarrow> addr \<Rightarrow> addr \<Rightarrow> jobject \<Rightarrow> jobject \<Rightarrow> jobject \<Rightarrow> jobject \<Rightarrow> event list" where
  "setup_steps thiz p a clazz g weak_this g' =
     [setup_log, ENewGlobalRef clazz g, ENewGlobalRef weak_this g',
      EIncStrong a SpRef, EAddCallback a NO_ERROR, EIncStrong a RegistryRef]
     @ swap_steps thiz p a
     @ (if p = 0 then [] else [EDecStrong p SpRef])
     @ [EDecStrong a SpRef]"

definition finalize_steps :: "jobject \<Rightarrow> addr \<Rightarrow> jobject \<Rightarrow> jobject \<Rightarrow> event list" where
  "finalize_steps thiz p obj cls =
     [finalize_log] @ swap_steps thiz p 0
     @ (if p = 0 then [] else
          [ERemoveCallback p, EDecStrong p RegistryRef, EDecStrong p SpRef,
           EDeleteGlobalRef obj, EDeleteGlobalRef cls, EDelete p])"

text \<open>The calls of a teardown that finds the slot empty.\<close>

definition teardown_noop_steps :: "jobject \<Rightarrow> event list" where
  "teardown_noop_steps thiz =
     [finalize_log, ELock, EGetLongField thiz mJniCallback 0,
      ESetLongField thiz mJniCallback 0, EUnlock]"

text \<open>
  The calls of one delivery on a thread with an environment: the call of the Java method
  with its five arguments, then the warning and the clearing when an exception is pending.
\<close>

definition dispatch_steps :: "bool \<Rightarrow> jobject \<Rightarrow> jobject \<Rightarrow> jint \<Rightarrow> jint \<Rightarrow> event list" where
  "dispatch_steps raised cls obj grp flags =
     ECallStaticVoidMethod cls postEventFromNative
       [JObject obj, JEventKind AUDIOVOLUMEGROUP_EVENT_VOLUME_CHANGED, JInt grp, JInt flags, JObject 0]
     # (if raised then [ELog LogW ''An exception occurred while notifying an event.'', EExceptionClear]
        else [])"

text \<open>
  Allocation is fresh: addresses and global references from the counters on are unused,
  and neither counter is null.
\<close>

definition fresh :: "world \<Rightarrow> bool" where
  "fresh w = (0 < next_addr w \<and> 0 < next_gref w \<and> (\<forall>g. next_gref w \<le> g \<longrightarrow> globals w g = None))"

text \<open>
  A registered bridge: allocated, with both members assigned, and counted once by the
  registry and once more if the slot of \<open>thiz\<close> points to it.
\<close>

definition registered_ok :: "world \<Rightarrow> jobject \<Rightarrow> addr \<Rightarrow> bool" where
  "registered_ok w thiz a =
     (0 < a \<and> a < next_addr w \<and>
      (case heap w a of
         None \<Rightarrow> False
       | Some h \<Rightarrow> mStrong h = (if long_fields w thiz = a then 2 else 1)
                  \<and> mClass h \<noteq> None \<and> mObject h \<noteq> None))"

text \<open>
  The state between two calls on the owner \<open>thiz\<close>: the slot is empty or points to a
  registered bridge, every registered bridge is as above, and the trace accounts for
  exactly the reference the slot holds.
\<close>

definition consistent :: "world \<Rightarrow> jobject \<Rightarrow> bool" where
  "consistent w thiz =
     (fresh w
      \<and> (long_fields w thiz = 0 \<or> long_fields w thiz \<in> set (registry w))
      \<and> distinct (registry w)
      \<and> (\<forall>a\<in>set (registry w). registered_ok w thiz a)
      \<and> (\<forall>a. slot_count a (trace w) = (if a \<noteq> 0 \<and> long_fields w thiz = a then 1 else 0)))"

text \<open>A call is well formed when \<^verbatim>\<open>GetObjectClass\<close> finds the class of the owner.\<close>

fun valid_call :: "call \<Rightarrow> bool" where
  "valid_call (Setup weak_this clazz status) = (clazz \<noteq> 0)"
| "valid_call Teardown = True"

text \<open>
  What the slot of the owner is to hold after a sequence of calls, in the words of the
  specification: the bridge an accepted setup has just constructed, nothing after a
  teardown, and what it held before after a rejected setup. The second component is the
  address the next bridge will get; every setup constructs one.
\<close>

fun slot_after :: "addr \<times> addr \<Rightarrow> call list \<Rightarrow> addr \<times> addr" where
  "slot_after s [] = s"
| "slot_after (slot, nxt) (Setup weak_this clazz status # cs) =
     slot_after (if status = NO_ERROR then nxt else slot, Suc nxt) cs"
| "slot_after (slot, nxt) (Teardown # cs) = slot_after (0, nxt) cs"

text \<open>
  What can be seen of the owner after a run: the slot, the registry of the audio system,
  and which of the registered bridges are live.
\<close>

definition observe :: "jobject \<Rightarrow> fault + world \<Rightarrow> (addr \<times> addr list \<times> bool list) option" where
  "observe thiz r =
     (case r of
        Inl e \<Rightarrow> None
      | Inr w \<Rightarrow> Some (long_fields w thiz, registry w, map (live w) (registry w)))"

subsection \<open>A world with one bridge installed\<close>

text \<open>
  The world after one accepted setup on the owner \<open>1\<close> with the weak reference \<open>7\<close>
  and the class \<open>9\<close>, from the initial world.
\<close>

definition installed_world :: world where
  "installed_world =
     \<lparr> heap = [1 \<mapsto> \<lparr>mClass = Some 1, mObject = Some 2, mStrong = 2\<rparr>],
       next_addr = 2,
       long_fields = (long_fields init_world)(1 := 1),
       globals = [1 \<mapsto> 9, 2 \<mapsto> 7],
       next_gref = 3,
       registry = [1],
       pending = False,
       trace = [setup_log, ENewGlobalRef 9 1, ENewGlobalRef 7 2, EIncStrong 1 SpRef,
                EAddCallback 1 0, EIncStrong 1 RegistryRef, ELock,
                EGetLongField 1 mJniCallback 0, EIncStrong 1 SlotRef,
                ESetLongField 1 mJniCallback 1, EUnlock, EDecStrong 1 SpRef] \<rparr>"

section \<open>Properties\<close>

subsection \<open>What each native method does\<close>

lemmas prim_defs = sp_acquire_def sp_release_def incStrong_def decStrong_def GetLongField_def
  SetLongField_def log_def Let_def JNIAudioVolumeChangeHandler_dtor_def DeleteGlobalRef_def NewGlobalRef_def
  JNIAudioVolumeChangeHandler_ctor_def addAudioVolumeGroupCallback_def removeAudioVolumeGroupCallback_def
  numeral_2_eq_2

lemma sum_case_ex: "(case r of Inl e \<Rightarrow> False | Inr w' \<Rightarrow> P w') \<Longrightarrow> \<exists>w'. r = Inr w' \<and> P w'"
  by (cases r) auto

lemma setup_ok_spec_empty:
  assumes "0 < next_addr w" and "clazz \<noteq> 0" and "long_fields w thiz = 0"
      and "a = next_addr w" and "g = next_gref w" and "g' = (if weak_this = 0 then 0 else Suc g)"
  shows "case eventHandlerSetup w thiz weak_this clazz NO_ERROR of Inl e \<Rightarrow> False | Inr w' \<Rightarrow>
           long_fields w' = (long_fields w)(thiz := a)
         \<and> registry w' = registry w @ [a]
         \<and> next_addr w' = Suc a
         \<and> next_gref w' = (if weak_this = 0 then Suc g else Suc (Suc g))
         \<and> globals w' = (if weak_this = 0 then (globals w)(g \<mapsto> clazz) else (globals w)(g \<mapsto> clazz, g' \<mapsto> weak_this))
         \<and> pending w' = pending w
         \<and> trace w' = trace w @ setup_steps thiz 0 a clazz g weak_this g'
         \<and> heap w' = (heap w)(a \<mapsto> \<lparr>mClass = Some g, mObject = Some g', mStrong = 2\<rparr>)"
  using assms
  by (simp add: eventHandlerSetup_def setJniCallback_def swap_steps_def setup_steps_def setup_log_def prim_defs)

lemma setup_ok_spec_replace:
  assumes "0 < next_addr w" and "clazz \<noteq> 0" and "long_fields w thiz = p" and "p \<noteq> 0"
      and "p \<noteq> next_addr w" and "heap w p = Some h" and "1 < mStrong h"
      and "a = next_addr w" and "g = next_gref w" and "g' = (if weak_this = 0 then 0 else Suc g)"
  shows "case eventHandlerSetup w thiz weak_this clazz NO_ERROR of Inl e \<Rightarrow> False | Inr w' \<Rightarrow>
           long_fields w' = (long_fields w)(thiz := a)
         \<and> registry w' = registry w @ [a]
         \<and> next_addr w' = Suc a
         \<and> next_gref w' = (if weak_this = 0 then Suc g else Suc (Suc g))
         \<and> globals w' = (if weak_this = 0 then (globals w)(g \<mapsto> clazz) else (globals w)(g \<mapsto> clazz, g' \<mapsto> weak_this))
         \<and> pending w' = pending w
         \<and> trace w' = trace w @ setup_steps thiz p a clazz g weak_this g'
         \<and> heap w' = (heap w)(p \<mapsto> h\<lparr>mStrong := mStrong h - 1\<rparr>,
                               a \<mapsto> \<lparr>mClass = Some g, mObject = Some g', mStrong = 2\<rparr>)"
  using assms
  by (simp add: eventHandlerSetup_def setJniCallback_def swap_steps_def setup_steps_def setup_log_def prim_defs)

lemma setup_failed_spec:
  assumes "0 < next_addr w" and "0 < next_gref w" and "clazz \<noteq> 0" and "status \<noteq> NO_ERROR"
      and "a = next_addr w" and "g = next_gref w" and "g' = (if weak_this = 0 then 0 else Suc g)"
  shows "case eventHandlerSetup w thiz weak_this clazz status of Inl e \<Rightarrow> False | Inr w' \<Rightarrow>
           long_fields w' = long_fields w
         \<and> registry w' = registry w
         \<and> next_addr w' = Suc a
         \<and> next_gref w' = (if weak_this = 0 then Suc g else Suc (Suc g))
         \<and> globals w' = (if weak_this = 0 then (globals w)(g := None) else (globals w)(g := None, g' := None))
         \<and> pending w' = pending w
         \<and> trace w' = trace w @ [setup_log, ENewGlobalRef clazz g, ENewGlobalRef weak_this g',
              EIncStrong a SpRef, EAddCallback a status, EDecStrong a SpRef,
              EDeleteGlobalRef g', EDeleteGlobalRef g, EDelete a]
         \<and> heap w' = (heap w)(a := None)"
  using assms
  by (simp add: eventHandlerSetup_def setup_log_def prim_defs fun_upd_twist)

lemma finalize_spec_empty:
  assumes "long_fields w thiz = 0"
  shows "eventHandlerFinalize w thiz = Inr (w\<lparr>trace := trace w @ finalize_steps thiz 0 obj cls\<rparr>)"
  using assms
  by (simp add: eventHandlerFinalize_def setJniCallback_def swap_steps_def finalize_steps_def
       finalize_log_def prim_defs fun_upd_idem)

lemma finalize_spec_installed:
  assumes "long_fields w thiz = p" and "p \<noteq> 0" and "p \<in> set (registry w)" and "heap w p = Some h"
       and "mStrong h = 2" and "mObject h = Some obj" and "mClass h = Some cls"
  shows "case eventHandlerFinalize w thiz of Inl e \<Rightarrow> False | Inr w' \<Rightarrow>
           long_fields w' = (long_fields w)(thiz := 0)
         \<and> registry w' = remove1 p (registry w)
         \<and> next_addr w' = next_addr w
         \<and> next_gref w' = next_gref w
         \<and> (\<forall>x. globals w x = None \<longrightarrow> globals w' x = None)
         \<and> pending w' = pending w
         \<and> trace w' = trace w @ finalize_steps thiz p obj cls
         \<and> heap w' = (heap w)(p := None)"
  using assms
  by (simp add: eventHandlerFinalize_def setJniCallback_def swap_steps_def finalize_steps_def
       finalize_log_def prim_defs)

lemma slot_count_append: "slot_count a (xs @ ys) = slot_count a xs + slot_count a ys"
  by (induction xs) simp_all

lemma slot_count_setup_steps:
  "a \<noteq> 0 \<Longrightarrow> a \<noteq> p \<Longrightarrow> slot_count x (setup_steps thiz p a clazz g weak_this g') =
     (if x = a then 1 else 0) - (if x = p \<and> p \<noteq> 0 then 1 else 0)"
  by (simp add: setup_steps_def swap_steps_def slot_step_def setup_log_def)

lemma slot_count_finalize_steps:
  "slot_count x (finalize_steps thiz p obj cls) = - (if x = p \<and> p \<noteq> 0 then 1 else 0)"
  by (simp add: finalize_steps_def swap_steps_def slot_step_def finalize_log_def)

lemma removeCallback_calls_append:
  "removeCallback_calls (xs @ ys) = removeCallback_calls xs @ removeCallback_calls ys"
  by (induction xs rule: removeCallback_calls.induct) simp_all

lemma removeCallback_calls_setup_steps: "removeCallback_calls (setup_steps thiz p a clazz g weak_this g') = []"
  by (simp add: setup_steps_def swap_steps_def setup_log_def)

lemma removeCallback_calls_finalize_steps:
  "removeCallback_calls (finalize_steps thiz p obj cls) = (if p = 0 then [] else [p])"
  by (simp add: finalize_steps_def swap_steps_def finalize_log_def)

subsection \<open>The state between calls is preserved\<close>

lemma consistent_slotD:
  assumes "consistent w thiz" and "long_fields w thiz = p" and "p \<noteq> 0"
  shows "p \<in> set (registry w) \<and> p < next_addr w
         \<and> (\<exists>h obj cls. heap w p = Some h \<and> mStrong h = 2 \<and> mObject h = Some obj \<and> mClass h = Some cls)"
proof -
  from assms have "p \<in> set (registry w)" by (auto simp: consistent_def)
  moreover from this assms have "registered_ok w thiz p" by (simp add: consistent_def)
  ultimately show ?thesis using assms(2) by (auto simp: registered_ok_def split: option.splits)
qed

lemma consistent_freshD: "consistent w thiz \<Longrightarrow> 0 < next_addr w \<and> 0 < next_gref w"
  by (simp add: consistent_def fresh_def)

lemma consistent_setup_ok:
  assumes c: "consistent w thiz" and cl: "clazz \<noteq> 0"
  shows "\<exists>w'. eventHandlerSetup w thiz weak_this clazz NO_ERROR = Inr w'
           \<and> consistent w' thiz
           \<and> long_fields w' = (long_fields w)(thiz := next_addr w)
           \<and> registry w' = registry w @ [next_addr w]
           \<and> next_addr w' = Suc (next_addr w)
           \<and> trace w' = trace w @ setup_steps thiz (long_fields w thiz) (next_addr w) clazz (next_gref w)
                weak_this (if weak_this = 0 then 0 else Suc (next_gref w))
           \<and> heap w' (next_addr w) = Some \<lparr>mClass = Some (next_gref w),
                mObject = Some (if weak_this = 0 then 0 else Suc (next_gref w)), mStrong = 2\<rparr>
           \<and> (\<forall>x. x \<noteq> next_addr w \<longrightarrow> x \<noteq> long_fields w thiz \<longrightarrow> heap w' x = heap w x)
           \<and> (\<forall>x h. x \<noteq> next_addr w \<longrightarrow> heap w x = Some h \<longrightarrow>
                  (\<exists>h'. heap w' x = Some h' \<and> mObject h' = mObject h \<and> mClass h' = mClass h))
           \<and> globals w' = (if weak_this = 0 then (globals w)(next_gref w \<mapsto> clazz)
                else (globals w)(next_gref w \<mapsto> clazz, Suc (next_gref w) \<mapsto> weak_this))"
proof (cases "long_fields w thiz = 0")
  case True
  from c have f: "0 < next_addr w" "0 < next_gref w" by (simp_all add: consistent_freshD)
  from setup_ok_spec_empty [OF f(1) cl True refl refl refl, of weak_this, THEN sum_case_ex]
  obtain w' where w': "eventHandlerSetup w thiz weak_this clazz NO_ERROR = Inr w'"
    "long_fields w' = (long_fields w)(thiz := next_addr w)"
    "registry w' = registry w @ [next_addr w]"
    "next_addr w' = Suc (next_addr w)"
    "next_gref w' = (if weak_this = 0 then Suc (next_gref w) else Suc (Suc (next_gref w)))"
    "globals w' = (if weak_this = 0 then (globals w)(next_gref w \<mapsto> clazz)
       else (globals w)(next_gref w \<mapsto> clazz, (if weak_this = 0 then 0 else Suc (next_gref w)) \<mapsto> weak_this))"
    "trace w' = trace w @ setup_steps thiz 0 (next_addr w) clazz (next_gref w) weak_this (if weak_this = 0 then 0 else Suc (next_gref w))"
    "heap w' = (heap w)(next_addr w \<mapsto> \<lparr>mClass = Some (next_gref w), mObject = Some (if weak_this = 0 then 0 else Suc (next_gref w)), mStrong = 2\<rparr>)"
    by blast
  have fr: "fresh w'" using c w'(4,5,6) by (auto simp: consistent_def fresh_def)
  have reg: "\<forall>a\<in>set (registry w). a < next_addr w" using c by (auto simp: consistent_def registered_ok_def)
  have d: "distinct (registry w')" using c reg w'(3) by (auto simp: consistent_def)
  have ro: "\<forall>a\<in>set (registry w'). registered_ok w' thiz a"
    using c reg f True w'(2,3,4,8) by (auto simp: consistent_def registered_ok_def split: option.splits)
  have sc: "\<forall>a. slot_count a (trace w') = (if a \<noteq> 0 \<and> long_fields w' thiz = a then 1 else 0)"
    using c f True w'(2,7) by (auto simp: consistent_def slot_count_append slot_count_setup_steps)
  have "consistent w' thiz" using fr d ro sc w'(2,3) by (simp add: consistent_def)
  then show ?thesis using w' True by auto
next
  case False
  from c have f: "0 < next_addr w" "0 < next_gref w" by (simp_all add: consistent_freshD)
  from consistent_slotD [OF c refl False] obtain h obj cls where
    p: "long_fields w thiz \<in> set (registry w)" "long_fields w thiz < next_addr w"
       "heap w (long_fields w thiz) = Some h" "mStrong h = 2" "mObject h = Some obj" "mClass h = Some cls"
    by blast
  have ne: "long_fields w thiz \<noteq> next_addr w" using p(2) by simp
  have gt: "1 < mStrong h" using p(4) by simp
  from setup_ok_spec_replace [OF f(1) cl refl False ne p(3) gt refl refl refl, of weak_this, THEN sum_case_ex]
  obtain w' where w': "eventHandlerSetup w thiz weak_this clazz NO_ERROR = Inr w'"
    "long_fields w' = (long_fields w)(thiz := next_addr w)"
    "registry w' = registry w @ [next_addr w]"
    "next_addr w' = Suc (next_addr w)"
    "next_gref w' = (if weak_this = 0 then Suc (next_gref w) else Suc (Suc (next_gref w)))"
    "globals w' = (if weak_this = 0 then (globals w)(next_gref w \<mapsto> clazz)
       else (globals w)(next_gref w \<mapsto> clazz, (if weak_this = 0 then 0 else Suc (next_gref w)) \<mapsto> weak_this))"
    "trace w' = trace w @ setup_steps thiz (long_fields w thiz) (next_addr w) clazz (next_gref w) weak_this (if weak_this = 0 then 0 else Suc (next_gref w))"
    "heap w' = (heap w)(long_fields w thiz \<mapsto> h\<lparr>mStrong := mStrong h - 1\<rparr>,
         next_addr w \<mapsto> \<lparr>mClass = Some (next_gref w), mObject = Some (if weak_this = 0 then 0 else Suc (next_gref w)), mStrong = 2\<rparr>)"
    by blast
  have fr: "fresh w'" using c w'(4,5,6) by (auto simp: consistent_def fresh_def)
  have reg: "\<forall>a\<in>set (registry w). a < next_addr w" using c by (auto simp: consistent_def registered_ok_def)
  have d: "distinct (registry w')" using c reg w'(3) by (auto simp: consistent_def)
  have ro: "\<forall>a\<in>set (registry w'). registered_ok w' thiz a"
    using c reg f p ne w'(2,3,4,8) by (auto simp: consistent_def registered_ok_def split: option.splits)
  have sc: "\<forall>a. slot_count a (trace w') = (if a \<noteq> 0 \<and> long_fields w' thiz = a then 1 else 0)"
    using c f False ne w'(2,7) by (auto simp: consistent_def slot_count_append slot_count_setup_steps)
  have "consistent w' thiz" using fr d ro sc w'(2,3) by (simp add: consistent_def)
  then show ?thesis using w' p(3) ne by auto
qed

lemma consistent_setup_failed:
  assumes c: "consistent w thiz" and cl: "clazz \<noteq> 0" and st: "status \<noteq> NO_ERROR"
  shows "\<exists>w'. eventHandlerSetup w thiz weak_this clazz status = Inr w'
           \<and> consistent w' thiz
           \<and> long_fields w' = long_fields w
           \<and> registry w' = registry w
           \<and> trace w' = trace w @ [setup_log, ENewGlobalRef clazz (next_gref w),
                ENewGlobalRef weak_this (if weak_this = 0 then 0 else Suc (next_gref w)),
                EIncStrong (next_addr w) SpRef, EAddCallback (next_addr w) status,
                EDecStrong (next_addr w) SpRef,
                EDeleteGlobalRef (if weak_this = 0 then 0 else Suc (next_gref w)),
                EDeleteGlobalRef (next_gref w), EDelete (next_addr w)]
           \<and> (\<forall>x. x \<noteq> next_addr w \<longrightarrow> heap w' x = heap w x)"
proof -
  from c have f: "0 < next_addr w" "0 < next_gref w" by (simp_all add: consistent_freshD)
  from setup_failed_spec [OF f cl st refl refl refl, of weak_this thiz, THEN sum_case_ex]
  obtain w' where w': "eventHandlerSetup w thiz weak_this clazz status = Inr w'"
    "long_fields w' = long_fields w"
    "registry w' = registry w"
    "next_addr w' = Suc (next_addr w)"
    "next_gref w' = (if weak_this = 0 then Suc (next_gref w) else Suc (Suc (next_gref w)))"
    "globals w' = (if weak_this = 0 then (globals w)(next_gref w := None)
       else (globals w)(next_gref w := None, (if weak_this = 0 then 0 else Suc (next_gref w)) := None))"
    "trace w' = trace w @ [setup_log, ENewGlobalRef clazz (next_gref w),
                ENewGlobalRef weak_this (if weak_this = 0 then 0 else Suc (next_gref w)),
                EIncStrong (next_addr w) SpRef, EAddCallback (next_addr w) status,
                EDecStrong (next_addr w) SpRef,
                EDeleteGlobalRef (if weak_this = 0 then 0 else Suc (next_gref w)),
                EDeleteGlobalRef (next_gref w), EDelete (next_addr w)]"
    "heap w' = (heap w)(next_addr w := None)"
    by blast
  have fr: "fresh w'" using c w'(4,5,6) by (auto simp: consistent_def fresh_def)
  have reg: "\<forall>a\<in>set (registry w). a < next_addr w" using c by (auto simp: consistent_def registered_ok_def)
  have ro: "\<forall>a\<in>set (registry w'). registered_ok w' thiz a"
    using c reg w'(2,3,4,8) by (auto simp: consistent_def registered_ok_def split: option.splits)
  have sc: "\<forall>a. slot_count a (trace w') = (if a \<noteq> 0 \<and> long_fields w' thiz = a then 1 else 0)"
    using c w'(2,7) by (auto simp: consistent_def slot_count_append slot_step_def setup_log_def)
  have "consistent w' thiz" using c fr ro sc w'(2,3) by (simp add: consistent_def)
  then show ?thesis using w' by auto
qed

lemma registered_ok_trace_update: "registered_ok (w\<lparr>trace := t\<rparr>) thiz a = registered_ok w thiz a"
  by (simp add: registered_ok_def)

lemma fresh_trace_update: "fresh (w\<lparr>trace := t\<rparr>) = fresh w"
  by (simp add: fresh_def)

lemma consistent_finalize:
  assumes c: "consistent w thiz"
  shows "\<exists>w' obj cls. eventHandlerFinalize w thiz = Inr w'
           \<and> consistent w' thiz
           \<and> long_fields w' = (long_fields w)(thiz := 0)
           \<and> registry w' = (if long_fields w thiz = 0 then registry w else remove1 (long_fields w thiz) (registry w))
           \<and> trace w' = trace w @ finalize_steps thiz (long_fields w thiz) obj cls
           \<and> (\<forall>x. x \<noteq> long_fields w thiz \<longrightarrow> heap w' x = heap w x)
           \<and> (long_fields w thiz \<noteq> 0 \<longrightarrow> heap w' (long_fields w thiz) = None)"
proof (cases "long_fields w thiz = 0")
  case True
  let ?w' = "w\<lparr>trace := trace w @ finalize_steps thiz 0 0 0\<rparr>"
  have e: "eventHandlerFinalize w thiz = Inr ?w'" using True by (rule finalize_spec_empty)
  have "consistent ?w' thiz"
    using c True by (simp add: consistent_def fresh_trace_update registered_ok_trace_update
         slot_count_append slot_count_finalize_steps)
  then show ?thesis using e True by (auto simp: fun_upd_idem intro!: exI [of _ 0])
next
  case False
  from consistent_slotD [OF c refl False] obtain h obj cls where
    p: "long_fields w thiz \<in> set (registry w)" "long_fields w thiz < next_addr w"
       "heap w (long_fields w thiz) = Some h" "mStrong h = 2" "mObject h = Some obj" "mClass h = Some cls"
    by blast
  from finalize_spec_installed [OF refl False p(1) p(3) p(4) p(5) p(6), THEN sum_case_ex]
  obtain w' where w': "eventHandlerFinalize w thiz = Inr w'"
    "long_fields w' = (long_fields w)(thiz := 0)"
    "registry w' = remove1 (long_fields w thiz) (registry w)"
    "next_addr w' = next_addr w"
    "next_gref w' = next_gref w"
    "\<forall>x. globals w x = None \<longrightarrow> globals w' x = None"
    "trace w' = trace w @ finalize_steps thiz (long_fields w thiz) obj cls"
    "heap w' = (heap w)(long_fields w thiz := None)"
    by blast
  have fr: "fresh w'" using c w'(4,5,6) by (auto simp: consistent_def fresh_def)
  have d: "distinct (registry w')" using c w'(3) by (auto simp: consistent_def)
  have ro: "\<forall>a\<in>set (registry w'). registered_ok w' thiz a"
    using c False w'(2,3,4,8) by (auto simp: consistent_def registered_ok_def split: option.splits)
  have sc: "\<forall>a. slot_count a (trace w') = (if a \<noteq> 0 \<and> long_fields w' thiz = a then 1 else 0)"
    using c False w'(2,7) by (auto simp: consistent_def slot_count_append slot_count_finalize_steps)
  have "consistent w' thiz" using fr d ro sc w'(2,3) by (simp add: consistent_def)
  then show ?thesis using w' False by auto
qed

lemma consistent_call:
  assumes "consistent w thiz" and "valid_call c"
  shows "\<exists>w'. run w thiz [c] = Inr w' \<and> consistent w' thiz"
proof (cases c)
  case (Setup weak_this clazz status)
  show ?thesis
  proof (cases "status = NO_ERROR")
    case True
    with consistent_setup_ok [OF assms(1), of clazz weak_this] assms(2) Setup show ?thesis by auto
  next
    case False
    with consistent_setup_failed [OF assms(1), of clazz status weak_this] assms(2) Setup show ?thesis by auto
  qed
next
  case Teardown
  with consistent_finalize [OF assms(1)] show ?thesis by auto
qed

lemma run_append:
  "run w thiz (cs @ ds) = (case run w thiz cs of Inl e \<Rightarrow> Inl e | Inr w' \<Rightarrow> run w' thiz ds)"
  by (induction w thiz cs rule: run.induct) (auto split: sum.splits)

lemma run_consistent:
  assumes "consistent w thiz" and "\<forall>c\<in>set cs. valid_call c"
  shows "\<exists>w'. run w thiz cs = Inr w' \<and> consistent w' thiz"
  using assms
proof (induction cs arbitrary: w)
  case Nil
  then show ?case by simp
next
  case (Cons c cs)
  from consistent_call [OF Cons.prems(1), of c] Cons.prems(2)
  obtain w1 where w1: "run w thiz [c] = Inr w1" "consistent w1 thiz" by auto
  from Cons.IH [OF w1(2)] Cons.prems(2)
  obtain w2 where w2: "run w1 thiz cs = Inr w2" "consistent w2 thiz" by auto
  from run_append [of w thiz "[c]" cs] w1(1) w2(1) have "run w thiz (c # cs) = Inr w2" by simp
  with w2(2) show ?case by blast
qed

lemma call_slot_after:
  assumes c: "consistent w thiz" and v: "valid_call cl"
  shows "\<exists>w'. run w thiz [cl] = Inr w' \<and> consistent w' thiz
           \<and> (long_fields w' thiz, next_addr w') = slot_after (long_fields w thiz, next_addr w) [cl]"
proof (cases cl)
  case (Setup weak_this clazz status)
  with v have cz: "clazz \<noteq> 0" by simp
  show ?thesis
  proof (cases "status = NO_ERROR")
    case True
    from consistent_setup_ok [OF c cz, of weak_this] obtain w' where
      "eventHandlerSetup w thiz weak_this clazz NO_ERROR = Inr w'" "consistent w' thiz"
      "long_fields w' = (long_fields w)(thiz := next_addr w)" "next_addr w' = Suc (next_addr w)"
      by blast
    with Setup True show ?thesis by simp
  next
    case False
    from c have f: "0 < next_addr w" "0 < next_gref w" by (simp_all add: consistent_freshD)
    from consistent_setup_failed [OF c cz False, of weak_this] obtain w' where
      w': "eventHandlerSetup w thiz weak_this clazz status = Inr w'" "consistent w' thiz"
          "long_fields w' = long_fields w"
      by blast
    from setup_failed_spec [OF f cz False refl refl refl, of weak_this thiz, THEN sum_case_ex]
    obtain w'' where "eventHandlerSetup w thiz weak_this clazz status = Inr w''"
      "next_addr w'' = Suc (next_addr w)" by blast
    with w'(1) have "next_addr w' = Suc (next_addr w)" by simp
    with w' Setup False show ?thesis by simp
  qed
next
  case Teardown
  from consistent_finalize [OF c] obtain w' where
    w': "eventHandlerFinalize w thiz = Inr w'" "consistent w' thiz"
        "long_fields w' = (long_fields w)(thiz := 0)"
    by blast
  have "next_addr w' = next_addr w"
  proof (cases "long_fields w thiz = 0")
    case True
    from finalize_spec_empty [OF True, of 0 0] w'(1) show ?thesis by auto
  next
    case False
    from consistent_slotD [OF c refl False] obtain h obj cls where
      p: "long_fields w thiz \<in> set (registry w)"
         "heap w (long_fields w thiz) = Some h" "mStrong h = 2" "mObject h = Some obj" "mClass h = Some cls"
      by blast
    from finalize_spec_installed [OF refl False p(1) p(2) p(3) p(4) p(5), THEN sum_case_ex]
    obtain w'' where "eventHandlerFinalize w thiz = Inr w''" "next_addr w'' = next_addr w" by blast
    with w'(1) show ?thesis by simp
  qed
  with w' Teardown show ?thesis by simp
qed

lemma slot_after_Cons:
  "slot_after s (c # cs) = slot_after (slot_after s [c]) cs"
  by (cases s; cases c) simp_all

lemma run_slot_after:
  assumes "consistent w thiz" and "\<forall>c\<in>set cs. valid_call c"
  shows "\<exists>w'. run w thiz cs = Inr w' \<and> consistent w' thiz
           \<and> (long_fields w' thiz, next_addr w') = slot_after (long_fields w thiz, next_addr w) cs"
  using assms
proof (induction cs arbitrary: w)
  case Nil
  then show ?case by simp
next
  case (Cons c cs)
  from Cons.prems(2) have v: "valid_call c" "\<forall>c\<in>set cs. valid_call c" by simp_all
  from call_slot_after [OF Cons.prems(1) v(1)] obtain w1 where
    w1: "run w thiz [c] = Inr w1" "consistent w1 thiz"
        "(long_fields w1 thiz, next_addr w1) = slot_after (long_fields w thiz, next_addr w) [c]"
    by blast
  from Cons.IH [OF w1(2) v(2)] obtain w2 where
    w2: "run w1 thiz cs = Inr w2" "consistent w2 thiz"
        "(long_fields w2 thiz, next_addr w2) = slot_after (long_fields w1 thiz, next_addr w1) cs"
    by blast
  from run_append [of w thiz "[c]" cs] w1(1) w2(1) have r: "run w thiz (c # cs) = Inr w2" by simp
  have "(long_fields w2 thiz, next_addr w2) = slot_after (long_fields w thiz, next_addr w) (c # cs)"
    using w1(3) w2(3) slot_after_Cons [of "(long_fields w thiz, next_addr w)" c cs] by simp
  with r w2(2) show ?case by blast
qed

lemma consistent_init: "consistent init_world thiz"
  by (auto simp: consistent_def fresh_def init_world_def)

subsection \<open>Teardown clears the slot\<close>

lemma decStrong_long_fields: "decStrong t a rid w = Inr w' \<Longrightarrow> long_fields w' = long_fields w"
  by (auto simp: prim_defs split: option.splits if_splits)

lemma incStrong_long_fields: "incStrong a rid w = Inr w' \<Longrightarrow> long_fields w' = long_fields w"
  by (auto simp: prim_defs split: option.splits if_splits)

lemma setJniCallback_long_fields:
  assumes "setJniCallback w thiz new = Inr (old, w')"
  shows "long_fields w' = (long_fields w)(thiz := new)"
  using assms
  by (auto simp: setJniCallback_def GetLongField_def SetLongField_def Let_def log_def sp_acquire_def
      split: sum.splits if_splits dest!: incStrong_long_fields decStrong_long_fields)

lemma finalize_clears_slot:
  assumes "eventHandlerFinalize w thiz = Inr w'"
  shows "long_fields w' thiz = 0"
proof -
  from assms obtain cb w1 w2 where
    s: "setJniCallback (log finalize_log w) thiz 0 = Inr (cb, w1)"
       "(if cb \<noteq> 0 then removeAudioVolumeGroupCallback True w1 cb else Inr w1) = Inr w2"
       "sp_release True cb w2 = Inr w'"
    by (auto simp: eventHandlerFinalize_def finalize_log_def Let_def split: sum.splits prod.splits)
  from s(1) have "long_fields w1 thiz = 0"
    by (auto dest!: setJniCallback_long_fields simp: log_def)
  moreover from s(2) have "long_fields w2 = long_fields w1"
    by (auto simp: removeAudioVolumeGroupCallback_def Let_def log_def dest: decStrong_long_fields split: if_splits)
  moreover from s(3) have "long_fields w' = long_fields w2"
    by (auto simp: sp_release_def dest: decStrong_long_fields split: if_splits)
  ultimately show ?thesis by simp
qed

lemma finalize_noop:
  assumes "long_fields w thiz = 0"
  shows "eventHandlerFinalize w thiz = Inr (w\<lparr>trace := trace w @ teardown_noop_steps thiz\<rparr>)"
  using finalize_spec_empty [OF assms, of 0 0]
  by (simp add: finalize_steps_def swap_steps_def teardown_noop_steps_def)

subsection \<open>The example world\<close>

lemma installed_world_reached: "run init_world 1 [Setup 7 9 0] = Inr installed_world"
  by (simp add: installed_world_def init_world_def eventHandlerSetup_def setJniCallback_def
        setup_log_def NO_ERROR_def prim_defs)

text \<open>
  Why a call must be well formed: when \<^verbatim>\<open>GetObjectClass\<close> returns null and the
  registration is accepted, a bridge with unassigned members is installed, and the
  teardown that destroys it reads them.
\<close>

lemma unassigned_members_fault: "run init_world 1 [Setup 7 0 0, Teardown] = Inl UninitialisedRead"
  by (simp add: init_world_def eventHandlerSetup_def eventHandlerFinalize_def setJniCallback_def
        NO_ERROR_def prim_defs)

lemma installed_world_consistent: "consistent installed_world 1"
  by (auto simp: consistent_def fresh_def registered_ok_def installed_world_def init_world_def
        slot_step_def setup_log_def)

subsection \<open>Delivery of an event\<close>

lemma onEvent_spec:
  assumes "heap w this = Some h" and "mClass h = Some cls" and "mObject h = Some obj"
  shows "onAudioVolumeGroupChanged True throws this grp flags w =
           Inr (w\<lparr>pending := False, trace := trace w @ dispatch_steps (pending w \<or> throws) cls obj grp flags\<rparr>)"
  using assms
  by (simp add: onAudioVolumeGroupChanged_def CallStaticVoidMethod_def ExceptionCheck_def
        ExceptionClear_def log_def Let_def dispatch_steps_def)

lemma dispatch_calls_dispatch_steps:
  "dispatch_calls (dispatch_steps raised cls obj grp flags) =
     [ECallStaticVoidMethod cls postEventFromNative
       [JObject obj, JEventKind AUDIOVOLUMEGROUP_EVENT_VOLUME_CHANGED, JInt grp, JInt flags, JObject 0]]"
  by (simp add: dispatch_steps_def)

subsection \<open>The slot swap\<close>

lemma setJniCallback_spec:
  assumes "long_fields w thiz = old" and "old = 0 \<or> live w old" and "new = 0 \<or> heap w new \<noteq> None"
  shows "\<exists>w'. setJniCallback w thiz new = Inr (old, w')
          \<and> trace w' = trace w @ swap_steps thiz old new
          \<and> long_fields w' = (long_fields w)(thiz := new)
          \<and> registry w' = registry w \<and> globals w' = globals w
          \<and> (old = 0 \<or> live w' old)
          \<and> (new \<noteq> old \<longrightarrow> new \<noteq> 0 \<longrightarrow>
                heap w' new = map_option (\<lambda>h. h\<lparr>mStrong := mStrong h + 1\<rparr>) (heap w new))
          \<and> (new \<noteq> old \<longrightarrow> old \<noteq> 0 \<longrightarrow> heap w' old = heap w old)"
  using assms
  by (auto simp: setJniCallback_def swap_steps_def live_def prim_defs split: option.splits)

lemma slot_peak_swap_steps:
  assumes "new \<noteq> old"
  shows "slot_peak a (if a = old \<and> a \<noteq> 0 then 1 else 0) (swap_steps thiz old new) \<le> 1"
  using assms by (simp add: swap_steps_def slot_step_def)

lemma slot_count_swap_steps:
  "slot_count a (swap_steps thiz old new) =
     (if a = new \<and> a \<noteq> 0 then 1 else 0) - (if a = old \<and> a \<noteq> 0 then 1 else 0)"
  by (cases "a = 0") (simp_all add: swap_steps_def slot_step_def)

subsection \<open>A registered bridge that is not in the slot stays registered\<close>

lemma consistent_registeredD:
  assumes "consistent w thiz" and "a \<in> set (registry w)"
  shows "0 < a \<and> a < next_addr w
         \<and> (\<exists>h obj cls. heap w a = Some h \<and> mStrong h = (if long_fields w thiz = a then 2 else 1)
               \<and> mObject h = Some obj \<and> mClass h = Some cls)"
proof -
  from assms have "registered_ok w thiz a" by (simp add: consistent_def)
  then show ?thesis by (auto simp: registered_ok_def split: option.splits)
qed

lemma call_keeps_displaced:
  assumes c: "consistent w thiz" and v: "valid_call cl" and r: "a \<in> set (registry w)"
      and n: "a \<noteq> long_fields w thiz"
  shows "\<exists>w' tr. run w thiz [cl] = Inr w' \<and> consistent w' thiz \<and> trace w' = trace w @ tr
           \<and> a \<notin> set (removeCallback_calls tr) \<and> EDelete a \<notin> set tr
           \<and> a \<in> set (registry w') \<and> a \<noteq> long_fields w' thiz \<and> heap w' a = heap w a"
proof -
  from consistent_registeredD [OF c r] have a: "0 < a" "a < next_addr w" by simp_all
  show ?thesis
  proof (cases cl)
    case (Setup weak_this clazz status)
    with v have cz: "clazz \<noteq> 0" by simp
    show ?thesis
    proof (cases "status = NO_ERROR")
      case True
      from consistent_setup_ok [OF c cz, of weak_this] obtain w' where
        w': "eventHandlerSetup w thiz weak_this clazz NO_ERROR = Inr w'" "consistent w' thiz"
            "long_fields w' = (long_fields w)(thiz := next_addr w)"
            "registry w' = registry w @ [next_addr w]"
            "trace w' = trace w @ setup_steps thiz (long_fields w thiz) (next_addr w) clazz (next_gref w)
                weak_this (if weak_this = 0 then 0 else Suc (next_gref w))"
            "\<forall>x. x \<noteq> next_addr w \<longrightarrow> x \<noteq> long_fields w thiz \<longrightarrow> heap w' x = heap w x"
        by blast
      have "EDelete a \<notin> set (setup_steps thiz (long_fields w thiz) (next_addr w) clazz (next_gref w)
                weak_this (if weak_this = 0 then 0 else Suc (next_gref w)))"
        by (simp add: setup_steps_def swap_steps_def setup_log_def)
      with w' a n r Setup True show ?thesis
        by (simp add: removeCallback_calls_setup_steps)
    next
      case False
      from consistent_setup_failed [OF c cz False, of weak_this] obtain w' where
        w': "eventHandlerSetup w thiz weak_this clazz status = Inr w'" "consistent w' thiz"
            "long_fields w' = long_fields w"
            "registry w' = registry w"
            "trace w' = trace w @ [setup_log, ENewGlobalRef clazz (next_gref w),
                ENewGlobalRef weak_this (if weak_this = 0 then 0 else Suc (next_gref w)),
                EIncStrong (next_addr w) SpRef, EAddCallback (next_addr w) status,
                EDecStrong (next_addr w) SpRef,
                EDeleteGlobalRef (if weak_this = 0 then 0 else Suc (next_gref w)),
                EDeleteGlobalRef (next_gref w), EDelete (next_addr w)]"
            "\<forall>x. x \<noteq> next_addr w \<longrightarrow> heap w' x = heap w x"
        by blast
      with a n r Setup show ?thesis by (simp add: setup_log_def)
    qed
  next
    case Teardown
    from consistent_finalize [OF c] obtain w' obj cls where
      w': "eventHandlerFinalize w thiz = Inr w'" "consistent w' thiz"
          "long_fields w' = (long_fields w)(thiz := 0)"
          "registry w' = (if long_fields w thiz = 0 then registry w else remove1 (long_fields w thiz) (registry w))"
          "trace w' = trace w @ finalize_steps thiz (long_fields w thiz) obj cls"
          "\<forall>x. x \<noteq> long_fields w thiz \<longrightarrow> heap w' x = heap w x"
      by blast
    have "EDelete a \<notin> set (finalize_steps thiz (long_fields w thiz) obj cls)"
      using n by (simp add: finalize_steps_def swap_steps_def finalize_log_def)
    with w' a n r Teardown show ?thesis
      by (simp add: removeCallback_calls_finalize_steps)
  qed
qed

lemma run_keeps_displaced:
  assumes "consistent w thiz" and "\<forall>c\<in>set cs. valid_call c" and "a \<in> set (registry w)"
      and "a \<noteq> long_fields w thiz"
  shows "\<exists>w' tr. run w thiz cs = Inr w' \<and> consistent w' thiz \<and> trace w' = trace w @ tr
           \<and> a \<notin> set (removeCallback_calls tr) \<and> EDelete a \<notin> set tr
           \<and> a \<in> set (registry w') \<and> a \<noteq> long_fields w' thiz \<and> heap w' a = heap w a"
  using assms
proof (induction cs arbitrary: w)
  case Nil
  then show ?case by simp
next
  case (Cons c cs)
  from Cons.prems(2) have v: "valid_call c" "\<forall>c\<in>set cs. valid_call c" by simp_all
  from call_keeps_displaced [OF Cons.prems(1) v(1) Cons.prems(3,4)] obtain w1 tr1 where
    w1: "run w thiz [c] = Inr w1" "consistent w1 thiz" "trace w1 = trace w @ tr1"
        "a \<notin> set (removeCallback_calls tr1)" "EDelete a \<notin> set tr1"
        "a \<in> set (registry w1)" "a \<noteq> long_fields w1 thiz" "heap w1 a = heap w a"
    by blast
  from Cons.IH [OF w1(2) v(2) w1(6,7)] obtain w2 tr2 where
    w2: "run w1 thiz cs = Inr w2" "consistent w2 thiz" "trace w2 = trace w1 @ tr2"
        "a \<notin> set (removeCallback_calls tr2)" "EDelete a \<notin> set tr2"
        "a \<in> set (registry w2)" "a \<noteq> long_fields w2 thiz" "heap w2 a = heap w1 a"
    by blast
  from run_append [of w thiz "[c]" cs] w1(1) w2(1) have r: "run w thiz (c # cs) = Inr w2" by simp
  have t: "trace w2 = trace w @ (tr1 @ tr2)" using w1(3) w2(3) by simp
  have "a \<notin> set (removeCallback_calls (tr1 @ tr2))" "EDelete a \<notin> set (tr1 @ tr2)"
    using w1(4,5) w2(4,5) by (simp_all add: removeCallback_calls_append)
  with r t w2(2,6,7,8) w1(8) show ?case by (intro exI [of _ w2] exI [of _ "tr1 @ tr2"]) simp
qed

subsection \<open>The claims\<close>

text \<open>
  C1. The claim makes the slot the sole source of truth for whether a bridge is
  registered for the owner. After two accepted setups on owner \<open>1\<close> the slot holds
  bridge \<open>2\<close> while the registry of the audio system holds the bridges \<open>1\<close> and
  \<open>2\<close>, both live; after the teardown that follows the slot is empty while bridge
  \<open>1\<close> is still registered and live.
\<close>

theorem slot_not_sole_record_counterexample:
  "observe 1 (run init_world 1 [Setup 7 9 0, Setup 8 9 0]) = Some (2, [1, 2], [True, True])
   \<and> observe 1 (run init_world 1 [Setup 7 9 0, Setup 8 9 0, Teardown]) = Some (0, [1], [True])"
  by (simp add: observe_def live_def init_world_def eventHandlerSetup_def eventHandlerFinalize_def
        setJniCallback_def NO_ERROR_def prim_defs)

text \<open>
  C1, as amended. Start from a state as it is between calls and run any sequence of
  well-formed setup and teardown calls on one owner. At every point between two calls
  (after the first \<open>n\<close> calls, for every \<open>n\<close>) the run has returned; the slot holds
  the bridge the latest accepted setup constructed, or nothing after a teardown, and a
  rejected setup leaves it as it was; the slot accounts for exactly one counted
  reference, to the bridge its field points to, or for none when the field is null; and
  a bridge in the slot is live and registered with the audio system. The slot tells
  which bridge is installed for the owner, not which bridges are registered.
\<close>

theorem slot_holds_at_most_one_bridge:
  assumes "consistent w thiz" and "\<forall>c\<in>set cs. valid_call c"
  shows "\<exists>w'. run w thiz (take n cs) = Inr w'
           \<and> (long_fields w' thiz, next_addr w') = slot_after (long_fields w thiz, next_addr w) (take n cs)
           \<and> (\<forall>a. slot_count a (trace w') = (if a \<noteq> 0 \<and> long_fields w' thiz = a then 1 else 0))
           \<and> (long_fields w' thiz = 0
                \<or> (long_fields w' thiz \<in> set (registry w') \<and> live w' (long_fields w' thiz)))"
proof -
  have "\<forall>c\<in>set (take n cs). valid_call c" using assms(2) by (auto dest: in_set_takeD)
  from run_slot_after [OF assms(1) this] obtain w' where
    w': "run w thiz (take n cs) = Inr w'" "consistent w' thiz"
        "(long_fields w' thiz, next_addr w') = slot_after (long_fields w thiz, next_addr w) (take n cs)"
    by blast
  have "long_fields w' thiz = 0 \<or> (long_fields w' thiz \<in> set (registry w') \<and> live w' (long_fields w' thiz))"
  proof (cases "long_fields w' thiz = 0")
    case False
    from consistent_slotD [OF w'(2) refl False] show ?thesis by (auto simp: live_def)
  qed simp
  with w' show ?thesis by (auto simp: consistent_def)
qed

theorem slot_holds_at_most_one_bridge_witness:
  "consistent init_world 1
   \<and> valid_call (Setup 7 9 0) \<and> valid_call (Setup 8 9 0) \<and> valid_call Teardown
   \<and> (\<exists>w'. run init_world 1 (take 2 [Setup 7 9 0, Setup 8 9 0, Teardown]) = Inr w'
           \<and> long_fields w' 1 = 2 \<and> next_addr w' = 3
           \<and> (\<forall>a. slot_count a (trace w') = (if a \<noteq> 0 \<and> long_fields w' 1 = a then 1 else 0))
           \<and> (long_fields w' 1 = 0
                \<or> (long_fields w' 1 \<in> set (registry w') \<and> live w' (long_fields w' 1))))"
proof -
  have v: "\<forall>c\<in>set [Setup 7 9 0, Setup 8 9 0, Teardown]. valid_call c" by simp
  have s: "slot_after (long_fields init_world 1, next_addr init_world)
             (take 2 [Setup 7 9 0, Setup 8 9 0, Teardown]) = (2, 3)"
    by (simp add: init_world_def NO_ERROR_def numeral_2_eq_2 numeral_3_eq_3)
  from slot_holds_at_most_one_bridge [OF consistent_init v, of 1 2] obtain w' where
    w': "run init_world 1 (take 2 [Setup 7 9 0, Setup 8 9 0, Teardown]) = Inr w'"
        "(long_fields w' 1, next_addr w') = slot_after (long_fields init_world 1, next_addr init_world)
             (take 2 [Setup 7 9 0, Setup 8 9 0, Teardown])"
        "\<forall>a. slot_count a (trace w') = (if a \<noteq> 0 \<and> long_fields w' 1 = a then 1 else 0)"
        "long_fields w' 1 = 0 \<or> (long_fields w' 1 \<in> set (registry w') \<and> live w' (long_fields w' 1))"
    by (elim exE conjE) (rule that, assumption+)
  from w'(2) s have "long_fields w' 1 = 2" "next_addr w' = 3" by simp_all
  with w'(1,3,4) have "\<exists>w'. run init_world 1 (take 2 [Setup 7 9 0, Setup 8 9 0, Teardown]) = Inr w'
           \<and> long_fields w' 1 = 2 \<and> next_addr w' = 3
           \<and> (\<forall>a. slot_count a (trace w') = (if a \<noteq> 0 \<and> long_fields w' 1 = a then 1 else 0))
           \<and> (long_fields w' 1 = 0
                \<or> (long_fields w' 1 \<in> set (registry w') \<and> live w' (long_fields w' 1)))"
    by blast
  with consistent_init show ?thesis by simp
qed

text \<open>
  C2. The claim is for every old and every new value, so also for the bridge that is
  already in the slot. In the world with bridge \<open>1\<close> installed for owner \<open>1\<close>, the slot
  accounts for one reference to the bridge; swapping in the same bridge counts it again
  before the old count is given up, so between those two steps the slot accounts for two
  references to the one bridge.
\<close>

theorem swap_same_bridge_counterexample:
  "long_fields installed_world 1 = 1
   \<and> slot_count 1 (trace installed_world) = 1
   \<and> setJniCallback installed_world 1 1 =
       Inr (1, installed_world\<lparr>heap := [1 \<mapsto> \<lparr>mClass = Some 1, mObject = Some 2, mStrong = 3\<rparr>],
                 trace := trace installed_world @
                   [ELock, EGetLongField 1 mJniCallback 1, EIncStrong 1 SpRef, EIncStrong 1 SlotRef,
                    EDecStrong 1 SlotRef, ESetLongField 1 mJniCallback 1, EUnlock]\<rparr>)
   \<and> slot_count 1 (trace installed_world @
        [ELock, EGetLongField 1 mJniCallback 1, EIncStrong 1 SpRef, EIncStrong 1 SlotRef]) = 2
   \<and> slot_peak 1 1 [ELock, EGetLongField 1 mJniCallback 1, EIncStrong 1 SpRef, EIncStrong 1 SlotRef,
                    EDecStrong 1 SlotRef, ESetLongField 1 mJniCallback 1, EUnlock] = 2"
  by (simp add: installed_world_def init_world_def setJniCallback_def slot_step_def setup_log_def
        prim_defs numeral_3_eq_3)

text \<open>
  C2, as amended. When the old value is null or a live bridge and the new value is null
  or an allocated bridge, \<^verbatim>\<open>setJniCallback\<close> returns the old value and its calls are
  exactly the steps in order, between lock and unlock: read the field into a strong
  pointer (which counts \<open>old\<close>), count \<open>new\<close> for the slot if it is not null, discount
  \<open>old\<close> for the slot if it is not null, write \<open>new\<close>. A new bridge other than the old
  one ends with one reference more and the old one with its count unchanged, the slot's
  reference having passed to the returned pointer. When \<open>new\<close> differs from \<open>old\<close>, no
  bridge ever has two references counted for the slot during the swap. In every case
  the old bridge is not destroyed in the swap and is still live on return.
\<close>

theorem slot_swap_steps_in_order:
  assumes "long_fields w thiz = old" and "old = 0 \<or> live w old" and "new = 0 \<or> heap w new \<noteq> None"
  shows "\<exists>w'. setJniCallback w thiz new = Inr (old, w')
          \<and> trace w' = trace w @ swap_steps thiz old new
          \<and> long_fields w' = (long_fields w)(thiz := new)
          \<and> (new \<noteq> old \<longrightarrow> new \<noteq> 0 \<longrightarrow>
                heap w' new = map_option (\<lambda>h. h\<lparr>mStrong := mStrong h + 1\<rparr>) (heap w new))
          \<and> (new \<noteq> old \<longrightarrow> old \<noteq> 0 \<longrightarrow> heap w' old = heap w old)
          \<and> (\<forall>a. slot_count a (swap_steps thiz old new) =
                (if a = new \<and> a \<noteq> 0 then 1 else 0) - (if a = old \<and> a \<noteq> 0 then 1 else 0))
          \<and> (new \<noteq> old \<longrightarrow>
                (\<forall>a. slot_peak a (if a = old \<and> a \<noteq> 0 then 1 else 0) (swap_steps thiz old new) \<le> 1))
          \<and> EDelete old \<notin> set (swap_steps thiz old new)
          \<and> (old = 0 \<or> live w' old)"
proof -
  from setJniCallback_spec [OF assms] obtain w' where
    w': "setJniCallback w thiz new = Inr (old, w')"
        "trace w' = trace w @ swap_steps thiz old new"
        "long_fields w' = (long_fields w)(thiz := new)"
        "old = 0 \<or> live w' old"
        "new \<noteq> old \<longrightarrow> new \<noteq> 0 \<longrightarrow>
                heap w' new = map_option (\<lambda>h. h\<lparr>mStrong := mStrong h + 1\<rparr>) (heap w new)"
        "new \<noteq> old \<longrightarrow> old \<noteq> 0 \<longrightarrow> heap w' old = heap w old"
    by blast
  have "EDelete old \<notin> set (swap_steps thiz old new)" by (simp add: swap_steps_def)
  with w' show ?thesis using slot_peak_swap_steps [of new old _ thiz] slot_count_swap_steps [of _ thiz old new]
    by blast
qed

theorem slot_swap_steps_in_order_witness:
  "long_fields installed_world 1 = 1 \<and> live installed_world 1
   \<and> (\<exists>w'. setJniCallback installed_world 1 0 = Inr (1, w')
          \<and> trace w' = trace installed_world @
              [ELock, EGetLongField 1 mJniCallback 1, EIncStrong 1 SpRef, EDecStrong 1 SlotRef,
               ESetLongField 1 mJniCallback 0, EUnlock]
          \<and> long_fields w' 1 = 0
          \<and> heap w' 1 = heap installed_world 1
          \<and> live w' 1)"
proof -
  have h: "long_fields installed_world 1 = 1" "(1::nat) = 0 \<or> live installed_world 1"
      "(0::nat) = 0 \<or> heap installed_world 0 \<noteq> None"
    by (simp_all add: installed_world_def live_def)
  have l: "live installed_world 1" by (simp add: installed_world_def live_def)
  have sw: "swap_steps 1 1 0 = [ELock, EGetLongField 1 mJniCallback 1, EIncStrong 1 SpRef,
      EDecStrong 1 SlotRef, ESetLongField 1 mJniCallback 0, EUnlock]"
    by (simp add: swap_steps_def)
  from slot_swap_steps_in_order [OF h] obtain w' where
    a: "setJniCallback installed_world 1 0 = Inr (1, w')" and
    b: "trace w' = trace installed_world @ swap_steps 1 1 0" and
    c: "long_fields w' = (long_fields installed_world)(1 := 0)" and
    d: "(0::nat) \<noteq> 1 \<longrightarrow> (1::nat) \<noteq> 0 \<longrightarrow> heap w' 1 = heap installed_world 1" and
    f: "(1::nat) = 0 \<or> live w' 1"
    by (elim exE conjE) (rule that, assumption+)
  from c have c': "long_fields w' 1 = 0" by simp
  from d have d': "heap w' 1 = heap installed_world 1" by simp
  from f have f': "live w' 1" by simp
  from b sw have b': "trace w' = trace installed_world @ [ELock, EGetLongField 1 mJniCallback 1,
      EIncStrong 1 SpRef, EDecStrong 1 SlotRef, ESetLongField 1 mJniCallback 0, EUnlock]"
    by (simp only:)
  from a b' c' d' f' have "\<exists>w'. setJniCallback installed_world 1 0 = Inr (1, w')
          \<and> trace w' = trace installed_world @
              [ELock, EGetLongField 1 mJniCallback 1, EIncStrong 1 SpRef, EDecStrong 1 SlotRef,
               ESetLongField 1 mJniCallback 0, EUnlock]
          \<and> long_fields w' 1 = 0
          \<and> heap w' 1 = heap installed_world 1
          \<and> live w' 1"
    by blast
  with h(1) l show ?thesis by blast
qed

text \<open>
  C3. A setup whose registration the audio system rejects returns normally and leaves
  every slot, the registry and the table of global references as they were: the two
  references the new bridge acquired are released, in reverse order, and the bridge is
  destroyed.
\<close>

theorem failed_setup_leaves_slot_and_handles:
  assumes "fresh w" and "clazz \<noteq> 0" and "status \<noteq> NO_ERROR"
  shows "\<exists>w' tr. eventHandlerSetup w thiz weak_this clazz status = Inr w'
           \<and> trace w' = trace w @ tr
           \<and> long_fields w' = long_fields w
           \<and> registry w' = registry w
           \<and> globals w' = globals w
           \<and> released tr = rev (acquired tr)
           \<and> length (acquired tr) = (if weak_this = 0 then 1 else 2)
           \<and> EDelete (next_addr w) \<in> set tr
           \<and> heap w' (next_addr w) = None"
proof -
  from assms(1) have f: "0 < next_addr w" "0 < next_gref w" by (simp_all add: fresh_def)
  from setup_failed_spec [OF f assms(2,3) refl refl refl, of weak_this thiz, THEN sum_case_ex]
  obtain w' where w': "eventHandlerSetup w thiz weak_this clazz status = Inr w'"
    "long_fields w' = long_fields w"
    "registry w' = registry w"
    "globals w' = (if weak_this = 0 then (globals w)(next_gref w := None)
       else (globals w)(next_gref w := None, (if weak_this = 0 then 0 else Suc (next_gref w)) := None))"
    "trace w' = trace w @ [setup_log, ENewGlobalRef clazz (next_gref w),
                ENewGlobalRef weak_this (if weak_this = 0 then 0 else Suc (next_gref w)),
                EIncStrong (next_addr w) SpRef, EAddCallback (next_addr w) status,
                EDecStrong (next_addr w) SpRef,
                EDeleteGlobalRef (if weak_this = 0 then 0 else Suc (next_gref w)),
                EDeleteGlobalRef (next_gref w), EDelete (next_addr w)]"
    "heap w' = (heap w)(next_addr w := None)"
    by blast
  have g: "globals w' = globals w" using assms(1) w'(4) by (auto simp: fresh_def fun_eq_iff)
  show ?thesis using w'(1,2,3,5,6) g f by (simp add: setup_log_def)
qed

theorem failed_setup_leaves_slot_and_handles_witness:
  "fresh init_world \<and> (9::nat) \<noteq> 0 \<and> (- 1) \<noteq> NO_ERROR
   \<and> (\<exists>w' tr. eventHandlerSetup init_world 1 7 9 (- 1) = Inr w'
           \<and> trace w' = trace init_world @ tr
           \<and> long_fields w' = long_fields init_world
           \<and> registry w' = registry init_world
           \<and> globals w' = globals init_world
           \<and> released tr = rev (acquired tr)
           \<and> length (acquired tr) = (if (7::nat) = 0 then 1 else 2)
           \<and> EDelete (next_addr init_world) \<in> set tr
           \<and> heap w' (next_addr init_world) = None)"
proof -
  have h: "fresh init_world" "(9::nat) \<noteq> 0" "(- 1) \<noteq> NO_ERROR"
    by (simp_all add: fresh_def init_world_def NO_ERROR_def)
  from failed_setup_leaves_slot_and_handles [OF h, of 1 7] h show ?thesis by blast
qed

text \<open>
  C4. When the Java method throws during a delivery to a bridge with both members
  assigned, \<^verbatim>\<open>onAudioVolumeGroupChanged\<close> returns normally: it has made the call,
  logged a warning and cleared the exception, so none is pending afterwards. Every slot,
  the registry, the heap and the global references are unchanged, and any later delivery
  to the bridge makes its call again.
\<close>

theorem dispatch_error_is_cleared:
  assumes "heap w this = Some h" and "mClass h = Some cls" and "mObject h = Some obj"
  shows "\<exists>w1. onAudioVolumeGroupChanged True True this grp flags w = Inr w1
           \<and> trace w1 = trace w @
                [ECallStaticVoidMethod cls postEventFromNative
                   [JObject obj, JEventKind AUDIOVOLUMEGROUP_EVENT_VOLUME_CHANGED, JInt grp, JInt flags, JObject 0],
                 ELog LogW ''An exception occurred while notifying an event.'',
                 EExceptionClear]
           \<and> \<not> pending w1
           \<and> long_fields w1 = long_fields w \<and> registry w1 = registry w
           \<and> heap w1 = heap w \<and> globals w1 = globals w
           \<and> (\<forall>throws' grp' flags'. \<exists>w2.
                 onAudioVolumeGroupChanged True throws' this grp' flags' w1 = Inr w2
                 \<and> dispatch_calls (drop (length (trace w1)) (trace w2)) =
                     [ECallStaticVoidMethod cls postEventFromNative
                        [JObject obj, JEventKind AUDIOVOLUMEGROUP_EVENT_VOLUME_CHANGED,
                         JInt grp', JInt flags', JObject 0]])"
proof -
  let ?w1 = "w\<lparr>pending := False, trace := trace w @ dispatch_steps True cls obj grp flags\<rparr>"
  have e1: "onAudioVolumeGroupChanged True True this grp flags w = Inr ?w1"
    using onEvent_spec [OF assms, of True grp flags] by simp
  have h1: "heap ?w1 this = Some h" using assms(1) by simp
  have e2: "\<And>throws' grp' flags'. onAudioVolumeGroupChanged True throws' this grp' flags' ?w1 =
      Inr (?w1\<lparr>pending := False, trace := trace ?w1 @ dispatch_steps (pending ?w1 \<or> throws') cls obj grp' flags'\<rparr>)"
    by (rule onEvent_spec [OF h1 assms(2,3)])
  show ?thesis
    by (rule exI [of _ ?w1]) (simp add: e1 e2 dispatch_calls_dispatch_steps, simp add: dispatch_steps_def)
qed

theorem dispatch_error_is_cleared_witness:
  "heap installed_world 1 = Some \<lparr>mClass = Some 1, mObject = Some 2, mStrong = 2\<rparr>
   \<and> (\<exists>w1. onAudioVolumeGroupChanged True True 1 3 1 installed_world = Inr w1
           \<and> trace w1 = trace installed_world @
                [ECallStaticVoidMethod 1 postEventFromNative
                   [JObject 2, JEventKind AUDIOVOLUMEGROUP_EVENT_VOLUME_CHANGED, JInt 3, JInt 1, JObject 0],
                 ELog LogW ''An exception occurred while notifying an event.'',
                 EExceptionClear]
           \<and> \<not> pending w1
           \<and> long_fields w1 = long_fields installed_world \<and> registry w1 = registry installed_world
           \<and> heap w1 = heap installed_world \<and> globals w1 = globals installed_world
           \<and> (\<forall>throws' grp' flags'. \<exists>w2.
                 onAudioVolumeGroupChanged True throws' 1 grp' flags' w1 = Inr w2
                 \<and> dispatch_calls (drop (length (trace w1)) (trace w2)) =
                     [ECallStaticVoidMethod 1 postEventFromNative
                        [JObject 2, JEventKind AUDIOVOLUMEGROUP_EVENT_VOLUME_CHANGED,
                         JInt grp', JInt flags', JObject 0]]))"
proof -
  have h: "heap installed_world 1 = Some \<lparr>mClass = Some 1, mObject = Some 2, mStrong = 2\<rparr>"
    by (simp add: installed_world_def)
  from dispatch_error_is_cleared [OF h, of 1 2 3 1] h show ?thesis by simp
qed

text \<open>
  C5. The claim has the dispatch method receive six values, a third integer \<open>0\<close>
  before the null object. The method is resolved with three integers in its signature
  and the bridge passes five values: the proxy, the event kind, the group, the flags and
  null. After \<open>setup\<close> of owner \<open>1\<close> with observer \<open>7\<close>, the delivery of group \<open>3\<close> with
  flags \<open>1\<close> makes one call, with the global reference \<open>2\<close> to the observer as proxy,
  and its arguments are not the six of the claim.
\<close>

theorem dispatch_payload_counterexample:
  "run init_world 1 [Setup 7 9 0] = Inr installed_world
   \<and> long_fields installed_world 1 = 1
   \<and> globals installed_world 2 = Some 7
   \<and> onAudioVolumeGroupChanged True False 1 3 1 installed_world =
       Inr (installed_world\<lparr>trace := trace installed_world @
         [ECallStaticVoidMethod 1 postEventFromNative
            [JObject 2, JEventKind AUDIOVOLUMEGROUP_EVENT_VOLUME_CHANGED, JInt 3, JInt 1, JObject 0]]\<rparr>)
   \<and> [ECallStaticVoidMethod 1 postEventFromNative
            [JObject 2, JEventKind AUDIOVOLUMEGROUP_EVENT_VOLUME_CHANGED, JInt 3, JInt 1, JObject 0]]
       \<noteq> [ECallStaticVoidMethod 1 postEventFromNative
            [JObject 2, JEventKind AUDIOVOLUMEGROUP_EVENT_VOLUME_CHANGED, JInt 3, JInt 1, JInt 0, JObject 0]]"
proof -
  have h: "heap installed_world 1 = Some \<lparr>mClass = Some 1, mObject = Some 2, mStrong = 2\<rparr>"
    by (simp add: installed_world_def)
  have p: "pending installed_world = False" by (simp add: installed_world_def)
  have "onAudioVolumeGroupChanged True False 1 3 1 installed_world =
       Inr (installed_world\<lparr>trace := trace installed_world @
         [ECallStaticVoidMethod 1 postEventFromNative
            [JObject 2, JEventKind AUDIOVOLUMEGROUP_EVENT_VOLUME_CHANGED, JInt 3, JInt 1, JObject 0]]\<rparr>)"
    using onEvent_spec [OF h, of 1 2 False 3 1] p by (simp add: dispatch_steps_def installed_world_def)
  then show ?thesis using installed_world_reached by (simp add: installed_world_def)
qed

text \<open>
  C5, as amended. After an accepted setup for the owner with a non-null observer, every
  delivery to the installed bridge on a thread with an environment calls the dispatch
  method exactly once, with five arguments: the global reference made from the observer,
  the event kind \<^verbatim>\<open>AUDIOVOLUMEGROUP_EVENT_VOLUME_CHANGED\<close>, the group, the flags, and
  null.
\<close>

theorem event_dispatched_once_with_five_arguments:
  assumes "consistent w thiz" and "clazz \<noteq> 0" and "weak_this \<noteq> 0"
  shows "\<exists>w1 b cls obj. eventHandlerSetup w thiz weak_this clazz NO_ERROR = Inr w1
           \<and> long_fields w1 thiz = b \<and> b \<in> set (registry w1)
           \<and> globals w1 cls = Some clazz \<and> globals w1 obj = Some weak_this
           \<and> (\<forall>throws grp flags. \<exists>w2.
                 onAudioVolumeGroupChanged True throws b grp flags w1 = Inr w2
                 \<and> dispatch_calls (drop (length (trace w1)) (trace w2)) =
                     [ECallStaticVoidMethod cls postEventFromNative
                        [JObject obj, JEventKind AUDIOVOLUMEGROUP_EVENT_VOLUME_CHANGED,
                         JInt grp, JInt flags, JObject 0]])"
proof -
  from consistent_setup_ok [OF assms(1,2), of weak_this] obtain w1 where
    w1: "eventHandlerSetup w thiz weak_this clazz NO_ERROR = Inr w1"
        "long_fields w1 = (long_fields w)(thiz := next_addr w)"
        "registry w1 = registry w @ [next_addr w]"
        "heap w1 (next_addr w) = Some \<lparr>mClass = Some (next_gref w),
            mObject = Some (if weak_this = 0 then 0 else Suc (next_gref w)), mStrong = 2\<rparr>"
        "globals w1 = (if weak_this = 0 then (globals w)(next_gref w \<mapsto> clazz)
            else (globals w)(next_gref w \<mapsto> clazz, Suc (next_gref w) \<mapsto> weak_this))"
    by blast
  let ?h = "\<lparr>mClass = Some (next_gref w), mObject = Some (Suc (next_gref w)), mStrong = 2\<rparr>"
  have h: "heap w1 (next_addr w) = Some ?h" using w1(4) assms(3) by simp
  have e: "\<And>throws grp flags. onAudioVolumeGroupChanged True throws (next_addr w) grp flags w1 =
      Inr (w1\<lparr>pending := False, trace := trace w1 @
         dispatch_steps (pending w1 \<or> throws) (next_gref w) (Suc (next_gref w)) grp flags\<rparr>)"
    by (rule onEvent_spec [OF h]) simp_all
  have g: "globals w1 (next_gref w) = Some clazz" "globals w1 (Suc (next_gref w)) = Some weak_this"
    using w1(5) assms(3) by simp_all
  show ?thesis
    apply (rule exI [of _ w1], rule exI [of _ "next_addr w"])
    apply (rule exI [of _ "next_gref w"], rule exI [of _ "Suc (next_gref w)"])
    using w1(1,2,3) g by (simp add: e dispatch_calls_dispatch_steps)
qed

theorem event_dispatched_once_with_five_arguments_witness:
  "consistent init_world 1 \<and> (9::nat) \<noteq> 0 \<and> (7::nat) \<noteq> 0
   \<and> (\<exists>w1 b cls obj. eventHandlerSetup init_world 1 7 9 NO_ERROR = Inr w1
           \<and> long_fields w1 1 = b \<and> b \<in> set (registry w1)
           \<and> globals w1 cls = Some 9 \<and> globals w1 obj = Some 7
           \<and> (\<forall>throws grp flags. \<exists>w2.
                 onAudioVolumeGroupChanged True throws b grp flags w1 = Inr w2
                 \<and> dispatch_calls (drop (length (trace w1)) (trace w2)) =
                     [ECallStaticVoidMethod cls postEventFromNative
                        [JObject obj, JEventKind AUDIOVOLUMEGROUP_EVENT_VOLUME_CHANGED,
                         JInt grp, JInt flags, JObject 0]]))"
proof -
  have h: "(9::nat) \<noteq> 0" "(7::nat) \<noteq> 0" by simp_all
  from event_dispatched_once_with_five_arguments [OF consistent_init h, of 1] consistent_init
  show ?thesis by simp
qed

text \<open>
  C6. With the bridge \<open>a1\<close> installed for the owner, a second accepted setup installs a
  new bridge \<open>a2\<close> and registers it; the slot's reference to \<open>a1\<close> is given up, so the
  slot accounts for none to \<open>a1\<close>, and the setup never calls
  \<^verbatim>\<open>removeAudioVolumeGroupCallback\<close>. The teardown that follows calls it exactly once,
  for \<open>a2\<close>, which leaves the registry.
\<close>

theorem second_setup_supersedes_first:
  assumes "consistent w thiz" and "long_fields w thiz = a1" and "a1 \<noteq> 0" and "clazz \<noteq> 0"
  shows "\<exists>w1 tr1 w2 tr2 a2.
           eventHandlerSetup w thiz weak_this clazz NO_ERROR = Inr w1
         \<and> trace w1 = trace w @ tr1
         \<and> long_fields w1 thiz = a2 \<and> a2 \<noteq> 0 \<and> a2 \<noteq> a1
         \<and> a2 \<in> set (registry w1)
         \<and> EDecStrong a1 SlotRef \<in> set tr1
         \<and> slot_count a1 (trace w1) = 0
         \<and> removeCallback_calls tr1 = []
         \<and> eventHandlerFinalize w1 thiz = Inr w2
         \<and> trace w2 = trace w1 @ tr2
         \<and> removeCallback_calls tr2 = [a2]
         \<and> a2 \<notin> set (registry w2)"
proof -
  let ?a2 = "next_addr w"
  let ?tr1 = "setup_steps thiz (long_fields w thiz) ?a2 clazz (next_gref w)
                weak_this (if weak_this = 0 then 0 else Suc (next_gref w))"
  from assms(2,3) have ne: "long_fields w thiz \<noteq> 0" by simp
  from consistent_slotD [OF assms(1) refl ne] have lt: "long_fields w thiz < ?a2" by simp
  from consistent_setup_ok [OF assms(1,4), of weak_this] obtain w1 where
    w1: "eventHandlerSetup w thiz weak_this clazz NO_ERROR = Inr w1" "consistent w1 thiz"
        "long_fields w1 = (long_fields w)(thiz := ?a2)"
        "registry w1 = registry w @ [?a2]"
        "trace w1 = trace w @ ?tr1"
    by blast
  have a2: "?a2 \<noteq> 0" "?a2 \<noteq> a1" using assms(1,2) lt by (auto simp: consistent_def fresh_def)
  have s1: "long_fields w1 thiz = ?a2" using w1(3) by simp
  have dec: "EDecStrong a1 SlotRef \<in> set ?tr1"
    using assms(2,3) by (simp add: setup_steps_def swap_steps_def)
  have sc: "slot_count a1 (trace w1) = 0" using w1(2) s1 a2 by (simp add: consistent_def)
  from consistent_finalize [OF w1(2)] obtain w2 obj cls where
    w2: "eventHandlerFinalize w1 thiz = Inr w2"
        "registry w2 = (if long_fields w1 thiz = 0 then registry w1 else remove1 (long_fields w1 thiz) (registry w1))"
        "trace w2 = trace w1 @ finalize_steps thiz (long_fields w1 thiz) obj cls"
    by blast
  have d: "distinct (registry w1)" using w1(2) by (simp add: consistent_def)
  have out: "?a2 \<notin> set (registry w2)" using w2(2) s1 a2(1) d by simp
  have rc: "removeCallback_calls (finalize_steps thiz ?a2 obj cls) = [?a2]"
    using a2(1) by (simp add: removeCallback_calls_finalize_steps)
  show ?thesis
    apply (rule exI [of _ w1], rule exI [of _ ?tr1], rule exI [of _ w2])
    apply (rule exI [of _ "finalize_steps thiz ?a2 obj cls"], rule exI [of _ ?a2])
    using w1(1,4,5) s1 a2 dec sc w2(1,3) rc out
    by (simp add: removeCallback_calls_setup_steps)
qed

theorem second_setup_supersedes_first_witness:
  "consistent installed_world 1 \<and> long_fields installed_world 1 = 1 \<and> (1::nat) \<noteq> 0 \<and> (9::nat) \<noteq> 0
   \<and> (\<exists>w1 tr1 w2 tr2 a2.
           eventHandlerSetup installed_world 1 8 9 NO_ERROR = Inr w1
         \<and> trace w1 = trace installed_world @ tr1
         \<and> long_fields w1 1 = a2 \<and> a2 \<noteq> 0 \<and> a2 \<noteq> 1
         \<and> a2 \<in> set (registry w1)
         \<and> EDecStrong 1 SlotRef \<in> set tr1
         \<and> slot_count 1 (trace w1) = 0
         \<and> removeCallback_calls tr1 = []
         \<and> eventHandlerFinalize w1 1 = Inr w2
         \<and> trace w2 = trace w1 @ tr2
         \<and> removeCallback_calls tr2 = [a2]
         \<and> a2 \<notin> set (registry w2))"
proof -
  have h: "long_fields installed_world 1 = 1" "(1::nat) \<noteq> 0" "(9::nat) \<noteq> 0"
    by (simp_all add: installed_world_def)
  from second_setup_supersedes_first [OF installed_world_consistent h, of 8]
    installed_world_consistent h
  show ?thesis by simp
qed

text \<open>
  C7. A teardown that finds the slot empty returns the world it was given, with only its
  own calls added to the trace: the lock, the read, the write of null over null, the
  unlock; no call of \<^verbatim>\<open>removeAudioVolumeGroupCallback\<close> and no fault. Every teardown
  that returns leaves the slot empty, so a second teardown in a row is such a call.
\<close>

theorem teardown_on_empty_slot_is_noop:
  "(long_fields w thiz = 0 \<longrightarrow>
      eventHandlerFinalize w thiz = Inr (w\<lparr>trace := trace w @ teardown_noop_steps thiz\<rparr>))
   \<and> (eventHandlerFinalize w thiz = Inr w1 \<longrightarrow>
      long_fields w1 thiz = 0
      \<and> eventHandlerFinalize w1 thiz = Inr (w1\<lparr>trace := trace w1 @ teardown_noop_steps thiz\<rparr>))
   \<and> removeCallback_calls (teardown_noop_steps thiz) = []"
  using finalize_noop [of w thiz] finalize_noop [of w1 thiz] finalize_clears_slot [of w thiz w1]
  by (simp add: teardown_noop_steps_def finalize_log_def)

theorem teardown_on_empty_slot_is_noop_witness:
  "long_fields init_world 1 = 0
   \<and> eventHandlerFinalize init_world 1 = Inr (init_world\<lparr>trace := teardown_noop_steps 1\<rparr>)
   \<and> eventHandlerFinalize (init_world\<lparr>trace := teardown_noop_steps 1\<rparr>) 1
        = Inr (init_world\<lparr>trace := teardown_noop_steps 1 @ teardown_noop_steps 1\<rparr>)
   \<and> removeCallback_calls (teardown_noop_steps 1) = []"
  using teardown_on_empty_slot_is_noop [of init_world 1 "init_world\<lparr>trace := teardown_noop_steps 1\<rparr>"]
  by (simp add: init_world_def)

text \<open>
  C8. A teardown that finds the bridge \<open>b\<close> in the slot returns with the slot empty,
  \<open>b\<close> out of the registry and \<open>b\<close> destroyed. In its trace the write of null to the
  slot and the call of \<^verbatim>\<open>removeAudioVolumeGroupCallback\<close> both come before the
  destruction of \<open>b\<close>, and the unregistration (with the registry giving up its
  reference) comes before the last reference, the one the local strong pointer holds,
  is dropped.
\<close>

theorem teardown_unregisters_before_destruction:
  assumes "consistent w thiz" and "long_fields w thiz = b" and "b \<noteq> 0"
  shows "\<exists>w' tr. eventHandlerFinalize w thiz = Inr w'
           \<and> trace w' = trace w @ tr
           \<and> long_fields w' thiz = 0
           \<and> b \<notin> set (registry w')
           \<and> heap w' b = None
           \<and> EDelete b \<in> set tr
           \<and> precedes (ESetLongField thiz mJniCallback 0) (EDelete b) tr
           \<and> precedes (ERemoveCallback b) (EDelete b) tr
           \<and> precedes (ERemoveCallback b) (EDecStrong b SpRef) tr
           \<and> precedes (EDecStrong b RegistryRef) (EDecStrong b SpRef) tr
           \<and> precedes (EDecStrong b SpRef) (EDelete b) tr"
proof -
  from assms(3,2) have ne: "long_fields w thiz \<noteq> 0" by simp
  from consistent_slotD [OF assms(1) refl ne] obtain h obj cls where
    p: "long_fields w thiz \<in> set (registry w)"
       "heap w (long_fields w thiz) = Some h" "mStrong h = 2" "mObject h = Some obj" "mClass h = Some cls"
    by blast
  from finalize_spec_installed [OF refl ne p(1) p(2) p(3) p(4) p(5), THEN sum_case_ex]
  obtain w' where w': "eventHandlerFinalize w thiz = Inr w'"
    "long_fields w' = (long_fields w)(thiz := 0)"
    "registry w' = remove1 (long_fields w thiz) (registry w)"
    "trace w' = trace w @ finalize_steps thiz (long_fields w thiz) obj cls"
    "heap w' = (heap w)(long_fields w thiz := None)"
    by blast
  have d: "distinct (registry w)" using assms(1) by (simp add: consistent_def)
  have "b \<notin> set (registry w')" using d w'(3) assms(2) by simp
  moreover have "precedes (ESetLongField thiz mJniCallback 0) (EDelete b) (finalize_steps thiz b obj cls)"
    "precedes (ERemoveCallback b) (EDelete b) (finalize_steps thiz b obj cls)"
    "precedes (ERemoveCallback b) (EDecStrong b SpRef) (finalize_steps thiz b obj cls)"
    "precedes (EDecStrong b RegistryRef) (EDecStrong b SpRef) (finalize_steps thiz b obj cls)"
    "precedes (EDecStrong b SpRef) (EDelete b) (finalize_steps thiz b obj cls)"
    "EDelete b \<in> set (finalize_steps thiz b obj cls)"
    using assms(3) by (simp_all add: precedes_def finalize_steps_def swap_steps_def finalize_log_def)
  ultimately show ?thesis using w' assms(2) by auto
qed

theorem teardown_unregisters_before_destruction_witness:
  "consistent installed_world 1 \<and> long_fields installed_world 1 = 1 \<and> (1::nat) \<noteq> 0
   \<and> (\<exists>w' tr. eventHandlerFinalize installed_world 1 = Inr w'
           \<and> trace w' = trace installed_world @ tr
           \<and> long_fields w' 1 = 0
           \<and> 1 \<notin> set (registry w')
           \<and> heap w' 1 = None
           \<and> EDelete 1 \<in> set tr
           \<and> precedes (ESetLongField 1 mJniCallback 0) (EDelete 1) tr
           \<and> precedes (ERemoveCallback 1) (EDelete 1) tr
           \<and> precedes (ERemoveCallback 1) (EDecStrong 1 SpRef) tr
           \<and> precedes (EDecStrong 1 RegistryRef) (EDecStrong 1 SpRef) tr
           \<and> precedes (EDecStrong 1 SpRef) (EDelete 1) tr)"
proof -
  have h: "long_fields installed_world 1 = 1" "(1::nat) \<noteq> 0"
    by (simp_all add: installed_world_def)
  from teardown_unregisters_before_destruction [OF installed_world_consistent h] installed_world_consistent h
  show ?thesis by simp
qed

text \<open>
  C9. With the bridge \<open>a1\<close> installed for the owner, run a second accepted setup and
  then any sequence of well-formed setup and teardown calls on the owner. In the whole
  trace \<open>a1\<close> is never passed to \<^verbatim>\<open>removeAudioVolumeGroupCallback\<close> and never
  destroyed; only the slot's reference to it is given up. At the end \<open>a1\<close> is not in the
  slot but still in the registry, allocated with its one remaining reference and its two
  members as they were, and a delivery to it still calls the dispatch method with its
  proxy.
\<close>

theorem displaced_bridge_stays_registered:
  assumes "consistent w thiz" and "long_fields w thiz = a1" and "a1 \<noteq> 0" and "clazz \<noteq> 0"
      and "\<forall>c\<in>set cs. valid_call c"
  shows "\<exists>w1 w2 tr h0 h cls obj.
           eventHandlerSetup w thiz weak_this clazz NO_ERROR = Inr w1
         \<and> run w1 thiz cs = Inr w2
         \<and> trace w2 = trace w @ tr
         \<and> a1 \<notin> set (removeCallback_calls tr)
         \<and> EDecStrong a1 SlotRef \<in> set tr
         \<and> EDelete a1 \<notin> set tr
         \<and> long_fields w2 thiz \<noteq> a1
         \<and> a1 \<in> set (registry w2)
         \<and> heap w a1 = Some h0 \<and> mClass h0 = Some cls \<and> mObject h0 = Some obj
         \<and> heap w2 a1 = Some h \<and> mStrong h = 1 \<and> mClass h = Some cls \<and> mObject h = Some obj
         \<and> (\<forall>throws grp flags. \<exists>w3.
               onAudioVolumeGroupChanged True throws a1 grp flags w2 = Inr w3
               \<and> dispatch_calls (drop (length (trace w2)) (trace w3)) =
                   [ECallStaticVoidMethod cls postEventFromNative
                      [JObject obj, JEventKind AUDIOVOLUMEGROUP_EVENT_VOLUME_CHANGED,
                       JInt grp, JInt flags, JObject 0]])"
proof -
  let ?a2 = "next_addr w"
  let ?tr1 = "setup_steps thiz (long_fields w thiz) ?a2 clazz (next_gref w)
                weak_this (if weak_this = 0 then 0 else Suc (next_gref w))"
  from assms(2,3) have ne: "long_fields w thiz \<noteq> 0" by simp
  from consistent_slotD [OF assms(1) refl ne] assms(2) obtain h0 obj cls where
    p: "a1 \<in> set (registry w)" "a1 < ?a2" "heap w a1 = Some h0" "mObject h0 = Some obj" "mClass h0 = Some cls"
    by auto
  from consistent_setup_ok [OF assms(1,4), of weak_this] obtain w1 where
    w1: "eventHandlerSetup w thiz weak_this clazz NO_ERROR = Inr w1" "consistent w1 thiz"
        "long_fields w1 = (long_fields w)(thiz := ?a2)"
        "registry w1 = registry w @ [?a2]"
        "trace w1 = trace w @ ?tr1"
        "\<forall>x h. x \<noteq> ?a2 \<longrightarrow> heap w x = Some h \<longrightarrow>
                  (\<exists>h'. heap w1 x = Some h' \<and> mObject h' = mObject h \<and> mClass h' = mClass h)"
    by blast
  have r1: "a1 \<in> set (registry w1)" using w1(4) p(1) by simp
  have n1: "a1 \<noteq> long_fields w1 thiz" using w1(3) p(2) by simp
  have ne2: "a1 \<noteq> ?a2" using p(2) by simp
  from w1(6) ne2 p(3) obtain h where
    h: "heap w1 a1 = Some h" "mObject h = mObject h0" "mClass h = mClass h0" by blast
  from consistent_registeredD [OF w1(2) r1] n1 h(1) have ms: "mStrong h = 1" by auto
  from run_keeps_displaced [OF w1(2) assms(5) r1 n1] obtain w2 tr2 where
    w2: "run w1 thiz cs = Inr w2" "trace w2 = trace w1 @ tr2"
        "a1 \<notin> set (removeCallback_calls tr2)" "EDelete a1 \<notin> set tr2"
        "a1 \<in> set (registry w2)" "a1 \<noteq> long_fields w2 thiz" "heap w2 a1 = heap w1 a1"
    by blast
  have h2: "heap w2 a1 = Some h" using w2(7) h(1) by simp
  have e: "\<And>throws grp flags. onAudioVolumeGroupChanged True throws a1 grp flags w2 =
      Inr (w2\<lparr>pending := False, trace := trace w2 @ dispatch_steps (pending w2 \<or> throws) cls obj grp flags\<rparr>)"
    using h(2,3) p(4,5) by (intro onEvent_spec [OF h2]) simp_all
  have t: "trace w2 = trace w @ (?tr1 @ tr2)" using w1(5) w2(2) by simp
  have dec: "EDecStrong a1 SlotRef \<in> set (?tr1 @ tr2)"
    using assms(2,3) by (simp add: setup_steps_def swap_steps_def)
  have nd: "EDelete a1 \<notin> set (?tr1 @ tr2)"
    using w2(4) by (simp add: setup_steps_def swap_steps_def setup_log_def)
  have nr: "a1 \<notin> set (removeCallback_calls (?tr1 @ tr2))"
    using w2(3) by (simp add: removeCallback_calls_append removeCallback_calls_setup_steps)
  show ?thesis
    apply (rule exI [of _ w1], rule exI [of _ w2], rule exI [of _ "?tr1 @ tr2"])
    apply (rule exI [of _ h0], rule exI [of _ h], rule exI [of _ cls], rule exI [of _ obj])
    using w1(1) w2(1,5,6) t nr dec nd p(3,4,5) h2 ms h(2,3)
    by (simp add: e dispatch_calls_dispatch_steps)
qed

theorem displaced_bridge_stays_registered_witness:
  "consistent installed_world 1 \<and> long_fields installed_world 1 = 1 \<and> (1::nat) \<noteq> 0 \<and> (9::nat) \<noteq> 0
   \<and> valid_call Teardown \<and> valid_call (Setup 5 9 0)
   \<and> (\<exists>w1 w2 tr h0 h cls obj.
           eventHandlerSetup installed_world 1 8 9 NO_ERROR = Inr w1
         \<and> run w1 1 [Teardown, Setup 5 9 0] = Inr w2
         \<and> trace w2 = trace installed_world @ tr
         \<and> 1 \<notin> set (removeCallback_calls tr)
         \<and> EDecStrong 1 SlotRef \<in> set tr
         \<and> EDelete 1 \<notin> set tr
         \<and> long_fields w2 1 \<noteq> 1
         \<and> 1 \<in> set (registry w2)
         \<and> heap installed_world 1 = Some h0 \<and> mClass h0 = Some cls \<and> mObject h0 = Some obj
         \<and> heap w2 1 = Some h \<and> mStrong h = 1 \<and> mClass h = Some cls \<and> mObject h = Some obj
         \<and> (\<forall>throws grp flags. \<exists>w3.
               onAudioVolumeGroupChanged True throws 1 grp flags w2 = Inr w3
               \<and> dispatch_calls (drop (length (trace w2)) (trace w3)) =
                   [ECallStaticVoidMethod cls postEventFromNative
                      [JObject obj, JEventKind AUDIOVOLUMEGROUP_EVENT_VOLUME_CHANGED,
                       JInt grp, JInt flags, JObject 0]]))"
proof -
  have h: "long_fields installed_world 1 = 1" "(1::nat) \<noteq> 0" "(9::nat) \<noteq> 0"
    by (simp_all add: installed_world_def)
  have v: "\<forall>c\<in>set [Teardown, Setup 5 9 0]. valid_call c" by simp
  from displaced_bridge_stays_registered [OF installed_world_consistent h v, of 8]
    installed_world_consistent h
  show ?thesis by simp
qed

text \<open>
  C10. When \<^verbatim>\<open>getJNIEnv\<close> returns null, \<^verbatim>\<open>onAudioVolumeGroupChanged\<close> returns without
  any call (the world, trace included, is the one it was given) and the destructor
  returns without deleting a global reference. Both return a world, not a fault, in
  every world, whatever the object is.
\<close>

theorem no_env_drops_event_and_keeps_refs:
  "onAudioVolumeGroupChanged False throws this grp flags w = Inr w
   \<and> JNIAudioVolumeChangeHandler_dtor False this w = Inr w"
  by (simp add: onAudioVolumeGroupChanged_def JNIAudioVolumeChangeHandler_dtor_def)

theorem no_env_drops_event_and_keeps_refs_witness:
  "onAudioVolumeGroupChanged False True 1 3 1 init_world = Inr init_world
   \<and> JNIAudioVolumeChangeHandler_dtor False 1 init_world = Inr init_world"
  using no_env_drops_event_and_keeps_refs [of True 1 3 1 init_world] by simp

end
